theory Spec2Isabelle
  imports Main "HOL-Library.Multiset" "HOL-Library.Sublist" "HOL-Library.Char_ord"
    "HOL-Library.List_Lexorder"
begin

section \<open>Shard runner of \<open>utilities/velocyto/run_loompy.py\<close>\<close>

text \<open>
  The development embeds the core of \<open>main\<close> of \<open>run_loompy.py\<close>: sample discovery
  (lines 189--203), grouping of the candidate files by a filename pattern (lines 180--181
  and 205--215), the selection of this shard's samples (line 220) and the per-sample loop
  (lines 220--264). Python strings are \<open>string\<close> (lists of 8-bit characters), Python's
  unbounded integers are \<open>int\<close>, and every exception of the source is a value of
  \<open>error\<close>.
\<close>

subsection \<open>Exceptions\<close>

datatype error =
    ValueError string
  | NameError string
  | UnboundLocalError string
  | AttributeError string
  | FileExistsError string
  | RuntimeError string
  | ExternalError string

subsection \<open>Extended slicing \<open>xs[start::step]\<close>\<close>

text \<open>
  Line 220 selects \<open>sorted(sample_lists)[args.partition_id :: args.num_partitions]\<close>.
  Python adjusts the start index to the length of the list (a negative start counts from
  the end and is clamped), takes the positions \<open>start, start + step, ...\<close> up to the end
  for a positive step and down to position 0 for a negative step, and raises
  \<open>ValueError\<close> for a zero step.
\<close>

definition py_slice_from :: "'a list \<Rightarrow> int \<Rightarrow> int \<Rightarrow> error + 'a list" where
  "py_slice_from xs start step =
     (let len = int (length xs) in
      if step = 0 then Inl (ValueError ''slice step cannot be zero'')
      else if 0 < step then
        (let lo = (if start < 0 then max (start + len) 0 else min start len)
         in Inr (map (\<lambda>j. xs ! j)
                  (filter (\<lambda>j. (j - nat lo) mod nat step = 0) [nat lo..<length xs])))
      else
        (let hi = (if start < 0 then max (start + len) (- 1) else min start (len - 1))
         in Inr (map (\<lambda>j. xs ! j)
                  (rev (filter (\<lambda>j. (nat hi - j) mod nat (- step) = 0) [0..<nat (hi + 1)])))))"

text \<open>The partition selector: the slice of the sorted sample names.\<close>

definition partition_select :: "string list \<Rightarrow> int \<Rightarrow> int \<Rightarrow> error + string list" where
  "partition_select sample_names partition_id num_partitions =
     py_slice_from (sort sample_names) partition_id num_partitions"


subsection \<open>Strings and paths\<close>

text \<open>\<open>needle in s\<close>, \<open>s.endswith(suffix)\<close>, \<open>os.path.basename\<close>, \<open>os.path.join\<close> with two
  arguments, and the \<open>/\<close> of \<open>pathlib\<close> followed by \<open>str\<close>.\<close>

fun contains :: "string \<Rightarrow> string \<Rightarrow> bool" where
  "contains needle [] = (needle = [])"
| "contains needle (c # cs) = (prefix needle (c # cs) \<or> contains needle cs)"

definition endswith :: "string \<Rightarrow> string \<Rightarrow> bool" where
  "endswith s suf = (length suf \<le> length s \<and> drop (length s - length suf) s = suf)"

definition basename :: "string \<Rightarrow> string" where
  "basename p = rev (takeWhile (\<lambda>c. c \<noteq> CHR ''/'') (rev p))"

definition path_join :: "string \<Rightarrow> string \<Rightarrow> string" where
  "path_join a b =
     (if prefix ''/'' b then b
      else if a = [] \<or> endswith a ''/'' then a @ b
      else a @ ''/'' @ b)"

text \<open>
  A POSIX path of \<open>pathlib\<close> keeps its root (\<open>//\<close> when the text starts with exactly two
  slashes, \<open>/\<close> when it starts with one or with three or more) and its components, the
  pieces between slashes that are neither empty nor \<open>.\<close>; \<open>..\<close> is kept. \<open>str\<close> writes
  the root and the components joined by single slashes, and \<open>.\<close> for the empty path.
  \<open>pathlib_str p\<close> is \<open>str(pathlib.Path(p))\<close>.
\<close>

fun split_slash :: "string \<Rightarrow> string list" where
  "split_slash [] = [[]]"
| "split_slash (c # cs) =
     (if c = CHR ''/'' then [] # split_slash cs
      else (case split_slash cs of [] \<Rightarrow> [[c]] | piece # pieces \<Rightarrow> (c # piece) # pieces))"

fun join_slash :: "string list \<Rightarrow> string" where
  "join_slash [] = []"
| "join_slash [piece] = piece"
| "join_slash (piece # next # pieces) = piece @ ''/'' @ join_slash (next # pieces)"

definition pathlib_str :: "string \<Rightarrow> string" where
  "pathlib_str p =
     (let root = (if prefix ''//'' p \<and> \<not> prefix ''///'' p then ''//''
                  else if prefix ''/'' p then ''/'' else []);
          parts = filter (\<lambda>piece. piece \<noteq> [] \<and> piece \<noteq> ''.'') (split_slash p)
      in if root = [] \<and> parts = [] then ''.'' else root @ join_slash parts)"

text \<open>\<open>str(dir / name)\<close> for a path \<open>dir\<close> given by its text: the two are joined as
  \<open>os.path.join\<close> joins them (an absolute \<open>name\<close> replaces \<open>dir\<close>) and the result is
  brought into the form above.\<close>

definition path_div :: "string \<Rightarrow> string \<Rightarrow> string" where
  "path_div dir name = pathlib_str (path_join dir name)"

subsection \<open>Filename patterns\<close>

text \<open>
  The two compiled patterns of lines 180--181 use literals, \<open>.\<close>, \<open>\d\<close>, the class
  \<open>[^/]\<close>, concatenation, \<open>+\<close>, \<open>?\<close> and \<open>$\<close>. \<open>re_match r s\<close> lists, in the order in
  which Python's backtracking matcher tries them (greedy first), the rests of \<open>s\<close> that
  remain after \<open>r\<close> has matched a prefix of \<open>s\<close>. \<open>.\<close> matches any character but a
  newline; \<open>\d\<close> matches a decimal digit, which among 8-bit characters is \<open>0\<close> to \<open>9\<close>;
  \<open>$\<close> matches at the end of the string and before a newline that ends it.
\<close>

datatype regex =
    Lit char
  | Dot
  | Digit
  | NotSlash
  | Cat regex regex
  | Plus regex
  | Opt regex
  | Eol

definition is_digit :: "char \<Rightarrow> bool" where
  "is_digit c = (c \<in> set ''0123456789'')"

definition match_char :: "(char \<Rightarrow> bool) \<Rightarrow> string \<Rightarrow> string list" where
  "match_char ok s = (case s of [] \<Rightarrow> [] | c # cs \<Rightarrow> if ok c then [cs] else [])"

text \<open>One or more repetitions, longest first; the bound is the number of characters left,
  which the one-character bodies of the source's patterns never exceed.\<close>

fun plus_iter :: "nat \<Rightarrow> (string \<Rightarrow> string list) \<Rightarrow> string \<Rightarrow> string list" where
  "plus_iter 0 f s = []"
| "plus_iter (Suc n) f s = concat (map (\<lambda>t. plus_iter n f t @ [t]) (f s))"

primrec re_match :: "regex \<Rightarrow> string \<Rightarrow> string list" where
  "re_match (Lit c) s = match_char (\<lambda>x. x = c) s"
| "re_match Dot s = match_char (\<lambda>x. x \<noteq> CHR 0x0A) s"
| "re_match Digit s = match_char is_digit s"
| "re_match NotSlash s = match_char (\<lambda>x. x \<noteq> CHR ''/'') s"
| "re_match (Cat a b) s = concat (map (re_match b) (re_match a s))"
| "re_match (Plus a) s = plus_iter (length s) (re_match a) s"
| "re_match (Opt a) s = re_match a s @ [s]"
| "re_match Eol s = (if s = [] \<or> s = [CHR 0x0A] then [s] else [])"

definition lits :: "string \<Rightarrow> regex \<Rightarrow> regex" where
  "lits cs r = foldr (\<lambda>c. Cat (Lit c)) cs r"

text \<open>A pattern with one capturing group at its start: the group and what follows it.\<close>

type_synonym pattern = "regex \<times> regex"

text \<open>\<open>_R\d(?:_\d+)?.fastq.gz$\<close>, the part the two patterns share.\<close>

definition read_tail :: regex where
  "read_tail =
     lits ''_R'' (Cat Digit (Cat (Opt (lits ''_'' (Plus Digit)))
       (Cat Dot (lits ''fastq'' (Cat Dot (lits ''gz'' Eol))))))"

text \<open>\<open>([^/]+)_R\d(?:_\d+)?.fastq.gz$\<close>\<close>

definition sample_re_smartseq2 :: pattern where
  "sample_re_smartseq2 = (Plus NotSlash, read_tail)"

text \<open>\<open>([^/]+)_L\d+_R\d(?:_\d+)?.fastq.gz$\<close>\<close>

definition sample_re_10x :: pattern where
  "sample_re_10x = (Plus NotSlash, lits ''_L'' (Cat (Plus Digit) read_tail))"

fun first_some :: "('a \<Rightarrow> 'b option) \<Rightarrow> 'a list \<Rightarrow> 'b option" where
  "first_some f [] = None"
| "first_some f (x # xs) = (case f x of Some y \<Rightarrow> Some y | None \<Rightarrow> first_some f xs)"

text \<open>A match that starts at the head of \<open>u\<close>: the group takes the longest prefix after
  which the rest of the pattern matches; the result is the text of group 1.\<close>

definition match_here :: "pattern \<Rightarrow> string \<Rightarrow> string option" where
  "match_here p u =
     first_some (\<lambda>t. if re_match (snd p) t \<noteq> [] then Some (take (length u - length t) u) else None)
       (re_match (fst p) u)"

text \<open>\<open>pattern.search(s)\<close> followed by \<open>.group(1)\<close>: the leftmost start position with a
  match wins; \<open>None\<close> when there is no match.\<close>

definition re_search :: "pattern \<Rightarrow> string \<Rightarrow> string option" where
  "re_search p s = first_some (\<lambda>start. match_here p (drop start s)) [0..<Suc (length s)]"

subsection \<open>Dictionaries of lists\<close>

text \<open>\<open>sample_lists\<close> and \<open>sample_sizes\<close> are \<open>defaultdict(list)\<close>: an association list
  in insertion order with distinct keys; a missing key reads as the empty list.\<close>

type_synonym 'v listdict = "(string \<times> 'v list) list"

fun dict_append :: "'v listdict \<Rightarrow> string \<Rightarrow> 'v \<Rightarrow> 'v listdict" where
  "dict_append [] k v = [(k, [v])]"
| "dict_append ((k', vs) # d) k v =
     (if k' = k then (k', vs @ [v]) # d else (k', vs) # dict_append d k v)"

definition dict_get :: "'v listdict \<Rightarrow> string \<Rightarrow> 'v list" where
  "dict_get d k = (case map_of d k of None \<Rightarrow> [] | Some vs \<Rightarrow> vs)"

definition dict_keys :: "'v listdict \<Rightarrow> string list" where
  "dict_keys d = map fst d"

subsection \<open>Sample discovery\<close>

text \<open>The object-store helpers \<open>s3u.get_files\<close>, \<open>s3u.get_size\<close> and \<open>s3u.get_folders\<close> are
  capabilities of the surrounding system: each maps a bucket and a prefix to a listing.\<close>

record s3_store =
  get_files :: "string \<Rightarrow> string \<Rightarrow> string list"
  get_size :: "string \<Rightarrow> string \<Rightarrow> (string \<times> int) list"
  get_folders :: "string \<Rightarrow> string \<Rightarrow> string list"

definition fastq_files :: "(string \<times> int) list \<Rightarrow> (string \<times> int) list" where
  "fastq_files listing = filter (\<lambda>(fn, s). endswith fn ''fastq.gz'') listing"

text \<open>Lines 189--203. In the \<open>else\<close> branch the loop variable \<open>sample\<close> runs over the
  sub-folders, and the body lists \<open>s3_input_prefix\<close> again on every round.\<close>

definition list_sample_files :: "s3_store \<Rightarrow> string \<Rightarrow> string \<Rightarrow> (string \<times> int) list" where
  "list_sample_files s3u s3_input_bucket s3_input_prefix =
     (if get_files s3u s3_input_bucket s3_input_prefix \<noteq> [] then
        fastq_files (get_size s3u s3_input_bucket s3_input_prefix)
      else
        concat (map (\<lambda>sample. fastq_files (get_size s3u s3_input_bucket s3_input_prefix))
                  (get_folders s3u s3_input_bucket (s3_input_prefix @ ''/''))))"

text \<open>Lines 209--212: the local \<open>matched\<close> is assigned in the branch for \<open>'10x'\<close> and in
  the branch for \<open>'smartseq2'\<close> only. The technology is the same on every round of the
  loop, so where neither branch runs \<open>matched\<close> has never been assigned and line 213
  raises \<open>UnboundLocalError\<close>.\<close>

definition search_matched :: "string \<Rightarrow> string \<Rightarrow> error + string option" where
  "search_matched technology fn =
     (if technology = ''10x'' then Inr (re_search sample_re_10x (basename fn))
      else if technology = ''smartseq2'' then Inr (re_search sample_re_smartseq2 (basename fn))
      else Inl (UnboundLocalError ''matched''))"

text \<open>Lines 205--215: the loop over the candidate files.\<close>

fun group_files ::
  "string \<Rightarrow> (string \<times> int) list \<Rightarrow> string listdict \<times> int listdict
     \<Rightarrow> error + (string listdict \<times> int listdict)" where
  "group_files technology [] acc = Inr acc"
| "group_files technology ((fn, s) # rest) (sample_lists, sample_sizes) =
     (case search_matched technology fn of
        Inl e \<Rightarrow> Inl e
      | Inr None \<Rightarrow> group_files technology rest (sample_lists, sample_sizes)
      | Inr (Some name) \<Rightarrow>
          group_files technology rest
            (dict_append sample_lists name fn, dict_append sample_sizes name s))"

definition discover ::
  "s3_store \<Rightarrow> string \<Rightarrow> string \<Rightarrow> string \<Rightarrow> error + (string listdict \<times> int listdict)" where
  "discover s3u s3_input_bucket s3_input_prefix technology =
     group_files technology (list_sample_files s3u s3_input_bucket s3_input_prefix) ([], [])"


subsection \<open>The per-sample loop\<close>

text \<open>
  \<open>args\<close> holds the parsed command line as far as the loop reads it. The parser of the
  file declares no option for \<open>min_size\<close>, which line 225 reads: \<open>None\<close> stands for the
  attribute being absent (reading it raises \<open>AttributeError\<close>), \<open>Some m\<close> for a namespace
  that carries the threshold \<open>m\<close>.
\<close>

record args =
  partition_id :: int
  num_partitions :: int
  min_size :: "int option"

text \<open>The locals of \<open>main\<close> that are fixed before the loop starts.\<close>

record run_ctx =
  run_dir :: string
  genome_dir :: string
  metadata_dir :: string
  sample_name :: string
  s3_output_bucket :: string
  s3_output_prefix :: string

datatype event =
    Mkdir string
  | Chdir string
  | SkipLog string
  | Invoke "string list"
  | Uploaded string string string
  | UploadFailed string string string error
  | Cleanup "string list"
  | Sleep nat

text \<open>The state the loop works on: the directories that exist, the effects so far, and the
  values the loop variable \<open>sample\<close> has taken.\<close>

record state =
  dirs :: "string list"
  trace :: "event list"
  started :: "string list"

text \<open>
  The surroundings of the loop. Lines 240 and 261 read the names \<open>log_command\<close> and
  \<open>dest_dir\<close>, which the file neither defines nor imports: \<open>None\<close> stands for the name
  being unbound (\<open>NameError\<close>), \<open>Some\<close> for a binding supplied from outside. The
  external calls (\<open>log_command\<close>, \<open>s3c.upload_file\<close>, \<open>ut_log.log_command\<close>) may depend on
  everything that happened before, so each takes the state; a call that raises returns the
  exception.
\<close>

record env =
  log_command :: "(state \<Rightarrow> string list \<Rightarrow> error + bool) option"
  dest_dir :: "string option"
  upload_file :: "state \<Rightarrow> string \<Rightarrow> string \<Rightarrow> string \<Rightarrow> error option"
  ut_log_command :: "state \<Rightarrow> string list \<Rightarrow> error + bool"

definition result_path :: "run_ctx \<Rightarrow> string" where
  "result_path ctx = path_div (run_dir ctx) ''results''"

definition artifact_name :: "run_ctx \<Rightarrow> string" where
  "artifact_name ctx = sample_name ctx @ ''.loom''"

definition artifact_file :: "run_ctx \<Rightarrow> string" where
  "artifact_file ctx = path_div (result_path ctx) (artifact_name ctx)"

definition artifact_key :: "run_ctx \<Rightarrow> string" where
  "artifact_key ctx = path_join (s3_output_prefix ctx) (artifact_name ctx)"

definition loompy_command :: "run_ctx \<Rightarrow> string list \<Rightarrow> string list" where
  "loompy_command ctx fastqs =
     [''loompy'', ''fromfq'', artifact_name ctx, sample_name ctx, genome_dir ctx, metadata_dir ctx]
       @ fastqs"

text \<open>\<open>rm -rf d\<close> on the directories that exist: \<open>d\<close> and everything below it go.\<close>

definition rm_rf :: "string \<Rightarrow> string list \<Rightarrow> string list" where
  "rm_rf d ds = filter (\<lambda>p. \<not> (p = d \<or> prefix (d @ ''/'') p)) ds"

definition emit :: "event list \<Rightarrow> state \<Rightarrow> state" where
  "emit evs st = st\<lparr>trace := trace st @ evs\<rparr>"

text \<open>Lines 253--264: upload, cleanup and the pacing delay.\<close>

definition publish :: "env \<Rightarrow> run_ctx \<Rightarrow> state \<Rightarrow> error option \<times> state" where
  "publish env ctx st =
     (case upload_file env st (artifact_file ctx) (s3_output_bucket ctx) (artifact_key ctx) of
        Some e \<Rightarrow>
          (Some e, emit [UploadFailed (artifact_file ctx) (s3_output_bucket ctx) (artifact_key ctx) e] st)
      | None \<Rightarrow>
          (let st1 = emit [Uploaded (artifact_file ctx) (s3_output_bucket ctx) (artifact_key ctx)] st in
           case dest_dir env of
             None \<Rightarrow> (Some (NameError ''dest_dir''), st1)
           | Some d \<Rightarrow>
               (let command = [''rm'', ''-rf'', d] in
                case ut_log_command env st1 command of
                  Inl e \<Rightarrow> (Some e, st1)
                | Inr failed \<Rightarrow>
                    (None, emit [Cleanup command, Sleep 30]
                             (st1\<lparr>dirs := (if failed then dirs st1 else rm_rf d (dirs st1))\<rparr>)))))"

text \<open>Lines 229--251: the command, its run and the check of \<open>failed\<close>.\<close>

definition invoke :: "env \<Rightarrow> run_ctx \<Rightarrow> string list \<Rightarrow> state \<Rightarrow> error option \<times> state" where
  "invoke env ctx fastqs st =
     (let command = loompy_command ctx fastqs in
      case log_command env of
        None \<Rightarrow> (Some (NameError ''log_command''), st)
      | Some run \<Rightarrow>
          (let st1 = emit [Invoke command] st in
           case run st command of
             Inl e \<Rightarrow> (Some e, st1)
           | Inr failed \<Rightarrow>
               if failed then (Some (RuntimeError ''loompy failed''), st1)
               else publish env ctx st1))"

text \<open>Lines 221--264: one round of the loop for \<open>sample\<close>. \<open>mkdir(parents=True)\<close> has no
  \<open>exist_ok\<close>: it raises \<open>FileExistsError\<close> when the directory is there already.\<close>

definition loop_body ::
  "env \<Rightarrow> args \<Rightarrow> run_ctx \<Rightarrow> string listdict \<Rightarrow> int listdict \<Rightarrow> string \<Rightarrow> state
     \<Rightarrow> error option \<times> state" where
  "loop_body env a ctx sample_lists sample_sizes sample st0 =
     (let st = st0\<lparr>started := started st0 @ [sample]\<rparr> in
      if result_path ctx \<in> set (dirs st) then (Some (FileExistsError (result_path ctx)), st)
      else
        (let st1 = emit [Mkdir (result_path ctx), Chdir (result_path ctx)]
                     (st\<lparr>dirs := result_path ctx # dirs st\<rparr>) in
         case min_size a of
           None \<Rightarrow> (Some (AttributeError ''min_size''), st1)
         | Some m \<Rightarrow>
             if sum_list (dict_get sample_sizes sample) < m then (None, emit [SkipLog sample] st1)
             else invoke env ctx (dict_get sample_lists sample) st1))"

text \<open>The \<open>for\<close> loop of line 220: an exception ends the run.\<close>

fun run_loop ::
  "env \<Rightarrow> args \<Rightarrow> run_ctx \<Rightarrow> string listdict \<Rightarrow> int listdict \<Rightarrow> string list \<Rightarrow> state
     \<Rightarrow> error option \<times> state" where
  "run_loop env a ctx sample_lists sample_sizes [] st = (None, st)"
| "run_loop env a ctx sample_lists sample_sizes (sample # rest) st =
     (case loop_body env a ctx sample_lists sample_sizes sample st of
        (Some e, st') \<Rightarrow> (Some e, st')
      | (None, st') \<Rightarrow> run_loop env a ctx sample_lists sample_sizes rest st')"

text \<open>Lines 189--264: discovery, grouping, selection of the shard's samples, and the loop.\<close>

definition run_core ::
  "env \<Rightarrow> s3_store \<Rightarrow> args \<Rightarrow> run_ctx \<Rightarrow> string \<Rightarrow> string \<Rightarrow> string \<Rightarrow> state
     \<Rightarrow> error option \<times> state" where
  "run_core env s3u a ctx technology s3_input_bucket s3_input_prefix st =
     (case discover s3u s3_input_bucket s3_input_prefix technology of
        Inl e \<Rightarrow> (Some e, st)
      | Inr (sample_lists, sample_sizes) \<Rightarrow>
          (case partition_select (dict_keys sample_lists) (partition_id a) (num_partitions a) of
             Inl e \<Rightarrow> (Some e, st)
           | Inr assigned \<Rightarrow> run_loop env a ctx sample_lists sample_sizes assigned st))"


subsection \<open>Auxiliary notions for the statements\<close>

text \<open>The positions \<open>i, i + n, i + 2n, ...\<close> below \<open>L\<close>.\<close>

definition stride_positions :: "nat \<Rightarrow> nat \<Rightarrow> nat \<Rightarrow> nat list" where
  "stride_positions L n i = filter (\<lambda>j. (j - i) mod n = 0) [i..<L]"

text \<open>Lines 153--156: the sub-directory of the reference genome is chosen by substring
  tests; with neither substring \<open>genome_dir\<close> is unbound at line 157.\<close>

definition genome_subdir :: "string \<Rightarrow> error + string" where
  "genome_subdir technology =
     (if contains ''10x'' technology then Inr ''10X''
      else if contains ''smartseq2'' technology then Inr ''smartseq2''
      else Inl (UnboundLocalError ''genome_dir''))"

text \<open>A lane marker in a file name: \<open>_L\<close> followed by a digit.\<close>

fun has_lane_marker :: "string \<Rightarrow> bool" where
  "has_lane_marker (a # b # c # rest) =
     ((a = CHR ''_'' \<and> b = CHR ''L'' \<and> is_digit c) \<or> has_lane_marker (b # c # rest))"
| "has_lane_marker _ = False"

text \<open>The events a run adds to the trace of the state it starts in.\<close>

definition new_events :: "state \<Rightarrow> error option \<times> state \<Rightarrow> event list" where
  "new_events st res = drop (length (trace st)) (trace (snd res))"

definition is_uploaded :: "event \<Rightarrow> bool" where
  "is_uploaded ev = (case ev of Uploaded f b k \<Rightarrow> True | _ \<Rightarrow> False)"

text \<open>The state in which the gate of line 225 is reached: the round has bound \<open>sample\<close>,
  created the results directory and changed into it.\<close>

definition at_gate :: "run_ctx \<Rightarrow> string \<Rightarrow> state \<Rightarrow> state" where
  "at_gate ctx sample st =
     emit [Mkdir (result_path ctx), Chdir (result_path ctx)]
       (st\<lparr>started := started st @ [sample], dirs := result_path ctx # dirs st\<rparr>)"

subsection \<open>Classification of a tool run\<close>

text \<open>
  Modelled from the spec: \<open>utilities.log_util.log_command\<close>, which line 240 calls to run
  the tool and whose result is the flag \<open>failed\<close>, is not among the sources. The spec
  (4.4) has a run classified as failed if the exit code is non-zero or a failure marker is
  present in the captured combined output; the markers are tool-specific and stay a
  parameter. \<open>tool\<close> gives the exit code and the captured output of a command.
\<close>

definition has_failure_marker :: "string list \<Rightarrow> string \<Rightarrow> bool" where
  "has_failure_marker markers output = list_ex (\<lambda>m. contains m output) markers"

definition classify_invocation_result :: "string list \<Rightarrow> int \<Rightarrow> string \<Rightarrow> bool" where
  "classify_invocation_result markers exit_code output =
     (exit_code \<noteq> 0 \<or> has_failure_marker markers output)"

definition spec_log_command ::
  "string list \<Rightarrow> (string list \<Rightarrow> int \<times> string) \<Rightarrow> state \<Rightarrow> string list \<Rightarrow> error + bool" where
  "spec_log_command markers tool st command =
     (case tool command of
        (exit_code, output) \<Rightarrow> Inr (classify_invocation_result markers exit_code output))"

subsection \<open>Discovery as the spec words it\<close>

text \<open>The spec (4.1) lists the objects under each sub-folder when the flat listing is
  empty. This second definition follows those words, for comparison with
  \<open>list_sample_files\<close>.\<close>

definition list_sample_files_spec :: "s3_store \<Rightarrow> string \<Rightarrow> string \<Rightarrow> (string \<times> int) list" where
  "list_sample_files_spec s3u s3_input_bucket s3_input_prefix =
     (if get_files s3u s3_input_bucket s3_input_prefix \<noteq> [] then
        fastq_files (get_size s3u s3_input_bucket s3_input_prefix)
      else
        concat (map (\<lambda>sample. fastq_files (get_size s3u s3_input_bucket sample))
                  (get_folders s3u s3_input_bucket (s3_input_prefix @ ''/''))))"

definition discover_spec ::
  "s3_store \<Rightarrow> string \<Rightarrow> string \<Rightarrow> string \<Rightarrow> error + (string listdict \<times> int listdict)" where
  "discover_spec s3u s3_input_bucket s3_input_prefix technology =
     group_files technology (list_sample_files_spec s3u s3_input_bucket s3_input_prefix) ([], [])"

subsection \<open>Concrete surroundings for the examples\<close>

text \<open>A store whose prefix \<open>in\<close> holds no object directly and has two sub-folders with one
  lane file each.\<close>

definition nested_store :: s3_store where
  "nested_store =
     \<lparr>get_files = (\<lambda>bucket p.
          if p = ''in/a/'' then [''in/a/sA_L1_R1.fastq.gz'']
          else if p = ''in/b/'' then [''in/b/sB_L1_R1.fastq.gz'']
          else []),
      get_size = (\<lambda>bucket p.
          if p = ''in/a/'' then [(''in/a/sA_L1_R1.fastq.gz'', 100)]
          else if p = ''in/b/'' then [(''in/b/sB_L1_R1.fastq.gz'', 200)]
          else []),
      get_folders = (\<lambda>bucket p. if p = ''in/'' then [''in/a/'', ''in/b/''] else [])\<rparr>"

definition example_ctx :: run_ctx where
  "example_ctx =
     \<lparr>run_dir = ''/mnt/data'', genome_dir = ''/mnt/genome/10X/human'',
      metadata_dir = ''/mnt/data/metadata/meta.tsv'', sample_name = ''meta'',
      s3_output_bucket = ''bkt'', s3_output_prefix = ''out''\<rparr>"

text \<open>Surroundings in which every name is bound and every external call succeeds.\<close>

definition example_env :: env where
  "example_env =
     \<lparr>log_command = Some (\<lambda>st command. Inr False), dest_dir = Some ''/mnt/data/meta'',
      upload_file = (\<lambda>st f b k. None), ut_log_command = (\<lambda>st command. Inr False)\<rparr>"

text \<open>The same with an upload that always raises.\<close>

definition failing_upload_env :: env where
  "failing_upload_env = example_env\<lparr>upload_file := (\<lambda>st f b k. Some (ExternalError ''S3UploadFailedError''))\<rparr>"

text \<open>A tool that exits with code 0 and prints a traceback, classified by the spec's rule.\<close>

definition marker_env :: env where
  "marker_env =
     example_env\<lparr>log_command :=
       Some (spec_log_command [''Traceback''] (\<lambda>command. (0, ''Traceback (most recent call last)'')))\<rparr>"

definition example_args :: args where
  "example_args = \<lparr>partition_id = 0, num_partitions = 1, min_size = Some 10\<rparr>"

definition example_state :: state where
  "example_state = \<lparr>dirs = [''/mnt/data''], trace = [], started = []\<rparr>"

definition example_lists :: "string listdict" where
  "example_lists = [(''a'', [''fa'']), (''b'', [''fb'']), (''c'', [''fc''])]"

definition example_sizes :: "int listdict" where
  "example_sizes = [(''a'', [4, 5]), (''b'', [4, 6]), (''c'', [20])]"

section \<open>Properties\<close>

subsection \<open>Partition selection\<close>

lemma stride_mod: "i < n \<Longrightarrow> i \<le> j \<Longrightarrow> ((j - i) mod n = 0) = (j mod n = (i::nat))"
  using mod_eq_dvd_iff_nat [of i j n] by (auto simp: mod_eq_0_iff_dvd)

lemma set_stride_positions: "i < n \<Longrightarrow> set (stride_positions L n i) = {j. j < L \<and> j mod n = i}"
proof (rule set_eqI)
  fix j
  assume a: "i < n"
  show "(j \<in> set (stride_positions L n i)) = (j \<in> {j. j < L \<and> j mod n = i})"
  proof (cases "i \<le> j")
    case True
    then show ?thesis using stride_mod [OF a True] by (simp add: stride_positions_def del: mod_eq_0_iff_dvd)
  next
    case False
    then have "j mod n \<noteq> i" by (metis mod_less_eq_dividend)
    with False show ?thesis by (simp add: stride_positions_def)
  qed
qed

lemma ceil_div: "0 < n \<Longrightarrow> (q < (a + n - 1) div n) = (q * n < (a::nat))"
proof -
  assume n: "0 < n"
  have "(Suc q \<le> (a + n - 1) div n) = (Suc q * n \<le> a + n - 1)"
    using less_eq_div_iff_mult_less_eq [OF n] by blast
  also have "\<dots> = (q * n < a)" using n by auto
  finally show ?thesis by (simp add: Suc_le_eq)
qed

lemma stride_positions_map: "0 < n \<Longrightarrow> stride_positions L n i = map (\<lambda>q. i + q * n) [0..<(L - i + n - 1) div n]"
proof -
  assume n: "0 < n"
  let ?m = "(L - i + n - 1) div n"
  have s1: "sorted (stride_positions L n i)" "distinct (stride_positions L n i)" by (simp_all add: stride_positions_def sorted_wrt_filter)
  have mono: "strict_mono (\<lambda>q. i + q * n)" using n by (simp add: strict_mono_def)
  have s2: "sorted (map (\<lambda>q. i + q * n) [0..<?m])"
    by (rule sorted_map_mono) (use n in \<open>auto simp: mono_on_def\<close>)
  have d2: "distinct (map (\<lambda>q. i + q * n) [0..<?m])"
    using n by (simp add: distinct_map inj_on_def)
  have "set (stride_positions L n i) = set (map (\<lambda>q. i + q * n) [0..<?m])"
  proof (rule set_eqI)
    fix j
    show "(j \<in> set (stride_positions L n i)) = (j \<in> set (map (\<lambda>q. i + q * n) [0..<?m]))"
    proof
      assume "j \<in> set (stride_positions L n i)"
      then have j: "i \<le> j" "j < L" "n dvd (j - i)" by (auto simp: stride_positions_def mod_eq_0_iff_dvd)
      then obtain q where q: "j - i = q * n" by (auto simp: dvd_def mult.commute)
      with j have "q * n < L - i" by linarith
      then have "q < ?m" using ceil_div [OF n, of q "L - i"] by blast
      moreover have "j = i + q * n" using q j by linarith
      ultimately show "j \<in> set (map (\<lambda>q. i + q * n) [0..<?m])" by auto
    next
      assume "j \<in> set (map (\<lambda>q. i + q * n) [0..<?m])"
      then obtain q where q: "q < ?m" "j = i + q * n" by auto
      then have "q * n < L - i" using ceil_div [OF n, of q "L - i"] by blast
      with q show "j \<in> set (stride_positions L n i)" by (auto simp: stride_positions_def)
    qed
  qed
  then show ?thesis using s1 s2 d2 sorted_distinct_set_unique by blast
qed


lemma partition_select_pos:
  "0 < n \<Longrightarrow> partition_select S (int i) (int n) = Inr (map (\<lambda>j. sort S ! j) (stride_positions (length S) n i))"
  by (simp add: partition_select_def py_slice_from_def stride_positions_def Let_def min_def)


lemma stride_positions_mod: "i < n \<Longrightarrow> stride_positions L n i = filter (\<lambda>j. j mod n = i) [0..<L]"
proof -
  assume a: "i < n"
  have "sorted (stride_positions L n i)" "distinct (stride_positions L n i)" by (simp_all add: stride_positions_def sorted_wrt_filter)
  moreover have "sorted (filter (\<lambda>j. j mod n = i) [0..<L])" "distinct (filter (\<lambda>j. j mod n = i) [0..<L])"
    by (simp_all add: sorted_wrt_filter)
  moreover have "set (stride_positions L n i) = set (filter (\<lambda>j. j mod n = i) [0..<L])"
    using set_stride_positions [OF a] by auto
  ultimately show ?thesis using sorted_distinct_set_unique by blast
qed

lemma mset_filter_class_add:
  "i \<notin> set is \<Longrightarrow>
   mset (filter (\<lambda>j. f j = i) xs) + mset (filter (\<lambda>j. f j \<in> set is) xs)
     = mset (filter (\<lambda>j. f j = i \<or> f j \<in> set is) xs)"
  by (induction xs) auto

lemma mset_concat_classes:
  "distinct is \<Longrightarrow>
   mset (concat (map (\<lambda>i. filter (\<lambda>j. f j = i) xs) is)) = mset (filter (\<lambda>j. f j \<in> set is) xs)"
proof (induction "is")
  case Nil
  then show ?case by simp
next
  case (Cons i "is")
  then have "mset (concat (map (\<lambda>i. filter (\<lambda>j. f j = i) xs) (i # is)))
      = mset (filter (\<lambda>j. f j = i) xs) + mset (filter (\<lambda>j. f j \<in> set is) xs)" by simp
  also have "\<dots> = mset (filter (\<lambda>j. f j = i \<or> f j \<in> set is) xs)"
    using Cons.prems by (intro mset_filter_class_add) simp
  finally show ?case by simp
qed

lemma mset_mod_classes:
  "0 < n \<Longrightarrow> mset (concat (map (\<lambda>i. filter (\<lambda>j. j mod n = i) xs) [0..<n])) = mset (xs :: nat list)"
  using mset_concat_classes [of "[0..<n]" "\<lambda>j. j mod n" xs] by simp

lemma mset_concat_stride_positions: "0 < n \<Longrightarrow> mset (concat (map (stride_positions L n) [0..<n])) = mset [0..<L]"
proof -
  assume n: "0 < n"
  have h: "map (stride_positions L n) [0..<n] = map (\<lambda>i. filter (\<lambda>j. j mod n = i) [0..<L]) [0..<n]"
    by (rule map_cong) (auto simp: stride_positions_mod)
  show ?thesis unfolding h by (rule mset_mod_classes [OF n])
qed

lemma mset_concat_map_nth:
  "mset (concat (map (\<lambda>i. map f (g i)) is)) = image_mset f (mset (concat (map g is)))"
  by (induction "is") auto

text \<open>
  Claim C1. For every list of sample names \<open>S\<close> and every shard count \<open>n \<ge> 1\<close>, the
  selections for the shard indices \<open>0, ..., n - 1\<close> exist, together they contain every
  sample exactly as often as \<open>S\<close> does, their union is \<open>S\<close>, they are pairwise disjoint
  when the names are distinct (as the keys of a dictionary are), and the sample at sorted
  position \<open>k\<close> is the entry \<open>k div n\<close> of the selection of shard \<open>k mod n\<close>.
\<close>

theorem partition_complete_disjoint:
  assumes "1 \<le> n"
  shows "\<exists>P. (\<forall>i<n. partition_select S (int i) (int n) = Inr (P i))
     \<and> mset (concat (map P [0..<n])) = mset S
     \<and> (\<Union>i<n. set (P i)) = set S
     \<and> (distinct S \<longrightarrow> (\<forall>i<n. \<forall>j<n. i \<noteq> j \<longrightarrow> set (P i) \<inter> set (P j) = {}))
     \<and> (\<forall>k<length S. k div n < length (P (k mod n)) \<and> P (k mod n) ! (k div n) = sort S ! k)"
proof -
  let ?xs = "sort S"
  let ?L = "length S"
  let ?P = "\<lambda>i. map (\<lambda>j. ?xs ! j) (stride_positions ?L n i)"
  from assms have n: "0 < n" by simp
  have sel: "\<forall>i<n. partition_select S (int i) (int n) = Inr (?P i)"
    using partition_select_pos [OF n] by simp
  have "mset (concat (map ?P [0..<n])) = image_mset (\<lambda>j. ?xs ! j) (mset [0..<?L])"
    using mset_concat_stride_positions [OF n, of ?L] by (simp add: mset_concat_map_nth del: mset_upt)
  also have "\<dots> = mset (map (\<lambda>j. ?xs ! j) [0..<length ?xs])" by simp
  also have "\<dots> = mset ?xs" by (simp only: map_nth)
  finally have cover: "mset (concat (map ?P [0..<n])) = mset S" by simp
  have "set (concat (map ?P [0..<n])) = set S" using cover by (metis set_mset_mset)
  then have un: "(\<Union>i<n. set (?P i)) = set S" by (auto simp: lessThan_atLeast0)
  have disj: "distinct S \<longrightarrow> (\<forall>i<n. \<forall>j<n. i \<noteq> j \<longrightarrow> set (?P i) \<inter> set (?P j) = {})"
  proof (intro impI allI)
    fix i j
    assume d: "distinct S" and ij: "i < n" "j < n" "i \<noteq> j"
    have dx: "distinct ?xs" using d by simp
    show "set (?P i) \<inter> set (?P j) = {}"
    proof (rule ccontr)
      assume "set (?P i) \<inter> set (?P j) \<noteq> {}"
      then obtain a b where ab: "a \<in> set (stride_positions ?L n i)" "b \<in> set (stride_positions ?L n j)" "?xs ! a = ?xs ! b"
        by auto
      then have "a < length ?xs" "b < length ?xs" "a mod n = i" "b mod n = j"
        using set_stride_positions ij by auto
      with ab dx ij show False by (auto simp: nth_eq_iff_index_eq)
    qed
  qed
  have pos: "\<forall>k<length S. k div n < length (?P (k mod n)) \<and> ?P (k mod n) ! (k div n) = ?xs ! k"
  proof (intro allI impI)
    fix k assume k: "k < length S"
    let ?i = "k mod n" and ?q = "k div n"
    have e: "?i + ?q * n = k" by simp
    have "?q * n < ?L - ?i" using k e by linarith
    then have q: "?q < (?L - ?i + n - 1) div n" using ceil_div [OF n, of ?q "?L - ?i"] by blast
    then show "k div n < length (?P ?i) \<and> ?P ?i ! ?q = ?xs ! k"
      using e by (simp add: stride_positions_map [OF n] del: upt_Suc)
  qed
  show ?thesis
    by (rule exI [where x = ?P]) (intro conjI sel cover un disj pos)
qed

theorem partition_complete_disjoint_witness:
  "(1::nat) \<le> 2 \<and>
   (\<exists>P. (\<forall>i<2. partition_select [''s3'', ''s1'', ''s4'', ''s2''] (int i) (int 2) = Inr (P i))
     \<and> mset (concat (map P [0..<2])) = mset [''s3'', ''s1'', ''s4'', ''s2''])"
  using partition_complete_disjoint [of 2 "[''s3'', ''s1'', ''s4'', ''s2'']"] by auto


lemma py_slice_from_subset:
  "py_slice_from xs i n = Inr sel \<Longrightarrow> set sel \<subseteq> set xs"
  by (auto simp: py_slice_from_def Let_def split: if_splits)

lemma py_slice_from_total:
  "n \<noteq> 0 \<Longrightarrow> \<exists>sel. py_slice_from xs i n = Inr sel"
  by (cases "0 < n") (simp_all add: py_slice_from_def Let_def)

text \<open>
  Claim C8, amended. The source has no check of the partition parameters and no
  \<open>InvalidPartition\<close> error: the selection fails exactly when the shard count is 0 (the
  \<open>ValueError\<close> of a zero slice step, raised before any sample is processed); for every
  other count a selection of samples is returned. For \<open>i \<ge> n \<ge> 1\<close> it is the
  subsequence of the sorted names at the positions \<open>i, i + n, ...\<close>, which is empty only
  when \<open>i\<close> is not below the number of samples. For \<open>n < 0\<close> it is the reverse-stride
  selection: the sorted names at the positions \<open>h, h - |n|, h - 2|n|, ...\<close> down to 0, where
  \<open>h\<close> is \<open>i\<close> capped at the last position for \<open>i \<ge> 0\<close>, and \<open>i\<close> plus the number
  of samples, but at least \<open>-1\<close>, for \<open>i < 0\<close>.
\<close>

theorem partition_select_error_iff_zero:
  "(partition_select S i n = Inl (ValueError ''slice step cannot be zero'')) = (n = 0)
   \<and> (n \<noteq> 0 \<longrightarrow> (\<exists>sel. partition_select S i n = Inr sel \<and> set sel \<subseteq> set S))
   \<and> (0 < n \<and> n \<le> i \<longrightarrow>
        partition_select S i n
          = Inr (map (\<lambda>j. sort S ! j) (stride_positions (length S) (nat n) (nat i))))
   \<and> (discover s3u bucket pre technology = Inr (sample_lists, sample_sizes)
        \<longrightarrow> num_partitions a = 0
        \<longrightarrow> run_core env s3u a ctx technology bucket pre st
              = (Some (ValueError ''slice step cannot be zero''), st))
   \<and> (n < 0 \<longrightarrow>
        partition_select S i n
          = Inr (map (\<lambda>j. sort S ! j)
              (rev (filter
                 (\<lambda>j. (nat (if i < 0 then max (i + int (length S)) (- 1)
                               else min i (int (length S) - 1)) - j) mod nat (- n) = 0)
                 [0..<nat ((if i < 0 then max (i + int (length S)) (- 1)
                            else min i (int (length S) - 1)) + 1)]))))"
proof (intro conjI impI)
  show "(partition_select S i n = Inl (ValueError ''slice step cannot be zero'')) = (n = 0)"
    by (simp add: partition_select_def py_slice_from_def Let_def)
next
  assume "n \<noteq> 0"
  then obtain sel where sel: "partition_select S i n = Inr sel"
    unfolding partition_select_def using py_slice_from_total by blast
  then have "set sel \<subseteq> set (sort S)"
    unfolding partition_select_def by (rule py_slice_from_subset)
  with sel show "\<exists>sel. partition_select S i n = Inr sel \<and> set sel \<subseteq> set S" by auto
next
  assume "0 < n \<and> n \<le> i"
  then show "partition_select S i n
          = Inr (map (\<lambda>j. sort S ! j) (stride_positions (length S) (nat n) (nat i)))"
    by (auto simp: partition_select_def py_slice_from_def Let_def stride_positions_def min_def)
next
  assume "discover s3u bucket pre technology = Inr (sample_lists, sample_sizes)"
    and "num_partitions a = 0"
  then show "run_core env s3u a ctx technology bucket pre st
              = (Some (ValueError ''slice step cannot be zero''), st)"
    by (simp add: run_core_def partition_select_def py_slice_from_def)
next
  assume "n < 0"
  then show "partition_select S i n
          = Inr (map (\<lambda>j. sort S ! j)
              (rev (filter
                 (\<lambda>j. (nat (if i < 0 then max (i + int (length S)) (- 1)
                               else min i (int (length S) - 1)) - j) mod nat (- n) = 0)
                 [0..<nat ((if i < 0 then max (i + int (length S)) (- 1)
                            else min i (int (length S) - 1)) + 1)])))"
    by (simp add: partition_select_def py_slice_from_def Let_def)
qed

theorem partition_select_error_iff_zero_witness:
  "partition_select [''a'', ''b'', ''c'', ''d''] 0 0 = Inl (ValueError ''slice step cannot be zero'')
   \<and> partition_select [''a'', ''b'', ''c'', ''d''] 3 2 = Inr [''d'']
   \<and> partition_select [''a'', ''b'', ''c'', ''d''] 5 2 = Inr []
   \<and> partition_select [''a'', ''b'', ''c'', ''d''] (- 1) (- 2) = Inr [''d'', ''b'']
   \<and> run_core example_env nested_store (example_args\<lparr>num_partitions := 0\<rparr>) example_ctx ''10x''
        ''bkt'' ''in'' example_state
      = (Some (ValueError ''slice step cannot be zero''), example_state)"
proof -
  have d: "discover nested_store ''bkt'' ''in'' ''10x'' = Inr ([], [])"
    by (simp add: nested_store_def discover_def list_sample_files_def fastq_files_def)
  have z: "num_partitions (example_args\<lparr>num_partitions := 0\<rparr>) = 0" by simp
  have zero: "partition_select [''a'', ''b'', ''c'', ''d''] 0 0
      = Inl (ValueError ''slice step cannot be zero'')"
    using partition_select_error_iff_zero
      [where S = "[''a'', ''b'', ''c'', ''d'']" and i = 0 and n = 0, THEN conjunct1]
    by simp
  have late: "partition_select [''a'', ''b'', ''c'', ''d''] 3 2 = Inr [''d'']"
    using partition_select_error_iff_zero
      [where S = "[''a'', ''b'', ''c'', ''d'']" and i = 3 and n = 2,
        THEN conjunct2, THEN conjunct2, THEN conjunct1]
    by (simp add: stride_positions_def)
  have beyond: "partition_select [''a'', ''b'', ''c'', ''d''] 5 2 = Inr []"
    using partition_select_error_iff_zero
      [where S = "[''a'', ''b'', ''c'', ''d'']" and i = 5 and n = 2,
        THEN conjunct2, THEN conjunct2, THEN conjunct1]
    by (simp add: stride_positions_def)
  have reverse: "partition_select [''a'', ''b'', ''c'', ''d''] (- 1) (- 2) = Inr [''d'', ''b'']"
    using partition_select_error_iff_zero
      [where S = "[''a'', ''b'', ''c'', ''d'']" and i = "- 1" and n = "- 2",
        THEN conjunct2, THEN conjunct2, THEN conjunct2, THEN conjunct2]
    by (simp add: upt_conv_Cons)
  have run: "run_core example_env nested_store (example_args\<lparr>num_partitions := 0\<rparr>) example_ctx
        ''10x'' ''bkt'' ''in'' example_state
      = (Some (ValueError ''slice step cannot be zero''), example_state)"
    using partition_select_error_iff_zero [THEN conjunct2, THEN conjunct2, THEN conjunct2,
        THEN conjunct1, rule_format, OF d z]
    by simp
  from zero late beyond reverse run show ?thesis by simp
qed

text \<open>The claim as stated fails: with shard index 2 and shard count 1, and with shard index 0
  and shard count \<open>-1\<close>, a selection is returned.\<close>

theorem partition_select_invalid_counterexample:
  "(1::int) \<le> 2 \<and> partition_select [''a'', ''b'', ''c''] 2 1 = Inr [''c'']
   \<and> (- 1::int) \<le> 0 \<and> partition_select [''a'', ''b'', ''c''] 0 (- 1) = Inr [''a'']"
  by (simp add: partition_select_def py_slice_from_def)

subsection \<open>Grouping\<close>

text \<open>
  Claim C10. For every technology label other than \<open>'10x'\<close> and \<open>'smartseq2'\<close> the grouping
  loop fails on its first candidate file with the unbound local \<open>matched\<close>; with no
  candidate file it returns without error and discovers no sample. A label that contains
  \<open>'10x'\<close> as a substring, such as \<open>'10xv2'\<close>, has passed the substring test of line 153
  that chooses the genome directory.
\<close>

theorem group_files_unbound_matched:
  assumes "technology \<noteq> ''10x''" and "technology \<noteq> ''smartseq2''"
  shows "(files \<noteq> [] \<longrightarrow> group_files technology files acc = Inl (UnboundLocalError ''matched''))
     \<and> group_files technology [] acc = Inr acc
     \<and> (list_sample_files s3u bucket pre = [] \<longrightarrow>
          discover s3u bucket pre technology = Inr ([], []))
     \<and> (contains ''10x'' technology \<longrightarrow> genome_subdir technology = Inr ''10X'')"
proof -
  have "group_files technology ((fn, s) # rest) (sl, ss) = Inl (UnboundLocalError ''matched'')"
    for fn s rest sl ss
    using assms by (simp add: search_matched_def)
  then have "files \<noteq> [] \<longrightarrow> group_files technology files acc = Inl (UnboundLocalError ''matched'')"
    by (cases files; cases acc) auto
  then show ?thesis by (simp add: discover_def genome_subdir_def)
qed

theorem group_files_unbound_matched_witness:
  "''10xv2'' \<noteq> ''10x'' \<and> ''10xv2'' \<noteq> ''smartseq2''
   \<and> group_files ''10xv2'' [(''in/sA_L1_R1.fastq.gz'', 5)] ([], []) = Inl (UnboundLocalError ''matched'')
   \<and> group_files ''10xv2'' [] ([], []) = Inr ([], [])
   \<and> genome_subdir ''10xv2'' = Inr ''10X''"
  using group_files_unbound_matched [of "''10xv2''" "[(''in/sA_L1_R1.fastq.gz'', 5)]" "([], [])"]
  by simp

lemma first_some_SomeD: "first_some f xs = Some y \<Longrightarrow> \<exists>x\<in>set xs. f x = Some y"
  by (induction xs) (auto split: option.splits)

lemma match_char_suffix: "t \<in> set (match_char ok s) \<Longrightarrow> \<exists>c. s = c # t"
  by (auto simp: match_char_def split: list.splits if_splits)

lemma plus_iter_suffix:
  "t \<in> set (plus_iter n (match_char ok) s) \<Longrightarrow> \<exists>pre. s = pre @ t"
proof (induction n arbitrary: s)
  case 0
  then show ?case by simp
next
  case (Suc n)
  then obtain u where u: "u \<in> set (match_char ok s)" and t: "t \<in> set (plus_iter n (match_char ok) u) \<or> t = u"
    by auto
  from u obtain c where s: "s = c # u" using match_char_suffix by blast
  from t show ?case
  proof
    assume "t \<in> set (plus_iter n (match_char ok) u)"
    then obtain pre where "u = pre @ t" using Suc.IH by blast
    with s have "s = (c # pre) @ t" by simp
    then show ?thesis by blast
  next
    assume "t = u"
    with s have "s = [c] @ t" by simp
    then show ?thesis by blast
  qed
qed

lemma lane_tail_start:
  assumes "re_match (lits ''_L'' (Cat (Plus Digit) r)) t \<noteq> []"
  shows "\<exists>d rest. t = CHR ''_'' # CHR ''L'' # d # rest \<and> is_digit d"
proof -
  from assms obtain t1 where t1: "t = CHR ''_'' # t1"
    by (cases t) (auto simp: lits_def match_char_def split: if_splits)
  with assms obtain t2 where t2: "t1 = CHR ''L'' # t2"
    by (cases t1) (auto simp: lits_def match_char_def split: if_splits)
  with assms t1 have "re_match (Plus Digit) t2 \<noteq> []"
    by (auto simp: lits_def match_char_def)
  then obtain d rest where "t2 = d # rest" "is_digit d"
    by (cases t2) (auto simp: match_char_def split: if_splits)
  with t1 t2 show ?thesis by simp
qed

lemma has_lane_marker_append:
  "is_digit d \<Longrightarrow> has_lane_marker (pre @ CHR ''_'' # CHR ''L'' # d # rest)"
proof (induction pre)
  case Nil
  then show ?case by simp
next
  case (Cons a pre)
  then have "has_lane_marker (pre @ CHR ''_'' # CHR ''L'' # d # rest)" by simp
  moreover obtain b c r where "pre @ CHR ''_'' # CHR ''L'' # d # rest = b # c # r"
    by (cases pre; cases "tl pre") auto
  ultimately show ?case by simp
qed

lemma re_search_10x_lane:
  assumes "re_search sample_re_10x s = Some g"
  shows "has_lane_marker s"
proof -
  from assms obtain start where m: "match_here sample_re_10x (drop start s) = Some g"
    unfolding re_search_def using first_some_SomeD by fastforce
  let ?u = "drop start s"
  from m obtain t where t: "t \<in> set (re_match (Plus NotSlash) ?u)"
    and r: "re_match (lits ''_L'' (Cat (Plus Digit) read_tail)) t \<noteq> []"
    unfolding match_here_def sample_re_10x_def
    by (auto dest!: first_some_SomeD split: if_splits)
  have "re_match NotSlash = match_char (\<lambda>x. x \<noteq> CHR ''/'')" by (rule ext) simp
  with t have "t \<in> set (plus_iter (length ?u) (match_char (\<lambda>x. x \<noteq> CHR ''/'')) ?u)" by simp
  then obtain pre where pre: "?u = pre @ t" using plus_iter_suffix by blast
  from lane_tail_start [OF r] obtain d rest where d: "t = CHR ''_'' # CHR ''L'' # d # rest" "is_digit d"
    by blast
  have "s = take start s @ ?u" by simp
  with pre d have "s = (take start s @ pre) @ CHR ''_'' # CHR ''L'' # d # rest" by simp
  then show ?thesis using has_lane_marker_append [OF d(2)] by metis
qed

lemma map_of_dict_append:
  "map_of (dict_append d k v) = (map_of d)(k \<mapsto> dict_get d k @ [v])"
  by (induction d k v rule: dict_append.induct) (auto simp: dict_get_def fun_upd_twist)

lemma set_dict_get_append:
  "set (dict_get (dict_append d k v) k')
     = (if k' = k then insert v (set (dict_get d k)) else set (dict_get d k'))"
  by (cases "map_of d k") (auto simp: dict_get_def map_of_dict_append)

lemma group_files_members:
  "group_files technology files (sl, ss) = Inr (sl', ss') \<Longrightarrow> fn \<in> set (dict_get sl' name) \<Longrightarrow>
   fn \<in> set (dict_get sl name) \<or> search_matched technology fn = Inr (Some name)"
proof (induction files arbitrary: sl ss)
  case Nil
  then show ?case by simp
next
  case (Cons f files)
  obtain fn' s where f: "f = (fn', s)" by (cases f)
  show ?case
  proof (cases "search_matched technology fn'")
    case (Inl e)
    with Cons.prems f show ?thesis by simp
  next
    case (Inr m)
    show ?thesis
    proof (cases m)
      case None
      with Inr Cons f show ?thesis by simp
    next
      case (Some g)
      with Inr Cons.prems f have
        "group_files technology files (dict_append sl g fn', dict_append ss g s) = Inr (sl', ss')"
        by simp
      from Cons.IH [OF this Cons.prems(2)]
      show ?thesis using Inr Some by (auto simp: set_dict_get_append split: if_splits)
    qed
  qed
qed

lemma group_files_10x_total: "\<exists>res. group_files ''10x'' files acc = Inr res"
proof (induction files arbitrary: acc)
  case Nil
  then show ?case by simp
next
  case (Cons f files)
  then show ?case
    by (cases f; cases acc) (auto simp: search_matched_def split: option.splits)
qed

lemma search_sA_R1: "re_search sample_re_10x ''sA_L1_R1.fastq.gz'' = Some ''sA''"
  by code_simp

lemma search_sA_R2: "re_search sample_re_10x ''sA_L1_R2.fastq.gz'' = Some ''sA''"
  by code_simp

lemma search_sB_R1_1: "re_search sample_re_10x ''sB_L2_R1_1.fastq.gz'' = Some ''sB''"
  by code_simp

lemma search_sB_R1: "re_search sample_re_10x ''sB_L1_R1.fastq.gz'' = Some ''sB''"
  by code_simp

lemma search_sC_R1: "re_search sample_re_10x ''sC_R1.fastq.gz'' = None"
  by code_simp

text \<open>
  Claim C7. Under the technology \<open>10x\<close> the files \<open>sA_L1_R1.fastq.gz\<close>,
  \<open>sA_L1_R2.fastq.gz\<close> and \<open>sB_L2_R1_1.fastq.gz\<close> are grouped into exactly the samples
  \<open>sA\<close> with two files and \<open>sB\<close> with one, whatever their sizes; grouping under \<open>10x\<close>
  never raises; and a file whose base name has no lane marker is in the list of no sample.
\<close>

theorem tenx_grouping:
  "group_files ''10x''
      [(''sA_L1_R1.fastq.gz'', s1), (''sA_L1_R2.fastq.gz'', s2), (''sB_L2_R1_1.fastq.gz'', s3)] ([], [])
     = Inr ([(''sA'', [''sA_L1_R1.fastq.gz'', ''sA_L1_R2.fastq.gz'']), (''sB'', [''sB_L2_R1_1.fastq.gz''])],
            [(''sA'', [s1, s2]), (''sB'', [s3])])
   \<and> (\<exists>res. group_files ''10x'' files ([], []) = Inr res)
   \<and> (group_files ''10x'' files ([], []) = Inr (sample_lists, sample_sizes)
        \<longrightarrow> \<not> has_lane_marker (basename fn)
        \<longrightarrow> (\<forall>name. fn \<notin> set (dict_get sample_lists name)))"
proof (intro conjI impI allI)
  show "group_files ''10x''
      [(''sA_L1_R1.fastq.gz'', s1), (''sA_L1_R2.fastq.gz'', s2), (''sB_L2_R1_1.fastq.gz'', s3)] ([], [])
     = Inr ([(''sA'', [''sA_L1_R1.fastq.gz'', ''sA_L1_R2.fastq.gz'']), (''sB'', [''sB_L2_R1_1.fastq.gz''])],
            [(''sA'', [s1, s2]), (''sB'', [s3])])"
    by (simp add: search_matched_def basename_def search_sA_R1 search_sA_R2 search_sB_R1_1)
next
  show "\<exists>res. group_files ''10x'' files ([], []) = Inr res" by (rule group_files_10x_total)
next
  fix name
  assume g: "group_files ''10x'' files ([], []) = Inr (sample_lists, sample_sizes)"
    and n: "\<not> has_lane_marker (basename fn)"
  show "fn \<notin> set (dict_get sample_lists name)"
  proof
    assume "fn \<in> set (dict_get sample_lists name)"
    from group_files_members [OF g this]
    have "re_search sample_re_10x (basename fn) = Some name"
      by (simp add: dict_get_def search_matched_def)
    then have "has_lane_marker (basename fn)" by (rule re_search_10x_lane)
    with n show False by simp
  qed
qed

theorem tenx_grouping_witness:
  "group_files ''10x'' [(''in/sA_L1_R1.fastq.gz'', 5), (''in/sC_R1.fastq.gz'', 7)] ([], [])
     = Inr ([(''sA'', [''in/sA_L1_R1.fastq.gz''])], [(''sA'', [5])])
   \<and> \<not> has_lane_marker (basename ''in/sC_R1.fastq.gz'')
   \<and> (\<forall>name. ''in/sC_R1.fastq.gz'' \<notin> set (dict_get [(''sA'', [''in/sA_L1_R1.fastq.gz''])] name))"
proof -
  have g: "group_files ''10x'' [(''in/sA_L1_R1.fastq.gz'', 5), (''in/sC_R1.fastq.gz'', 7)] ([], [])
     = Inr ([(''sA'', [''in/sA_L1_R1.fastq.gz''])], [(''sA'', [5])])"
    by (simp add: search_matched_def basename_def search_sA_R1 search_sC_R1)
  have n: "\<not> has_lane_marker (basename ''in/sC_R1.fastq.gz'')"
    by (simp add: basename_def is_digit_def)
  from tenx_grouping [THEN conjunct2, THEN conjunct2, rule_format, OF g n] g n
  show ?thesis by simp
qed

subsection \<open>Listing of sub-folders\<close>

lemma list_sample_files_fallback:
  "get_files s3u bucket pre = [] \<Longrightarrow>
   list_sample_files s3u bucket pre
     = concat (replicate (length (get_folders s3u bucket (pre @ ''/'')))
         (fastq_files (get_size s3u bucket pre)))"
  by (simp add: list_sample_files_def map_replicate_const)

text \<open>
  Claim C5, evaluated on the source. The prefix \<open>in\<close> of \<open>nested_store\<close> has an empty flat
  listing and the two sub-folders \<open>in/a/\<close> and \<open>in/b/\<close>, each with one file of the lane
  pattern. The source lists the prefix \<open>in\<close> once more for each sub-folder and discovers no
  sample; discovery as the spec words it returns the samples \<open>sA\<close> and \<open>sB\<close>.
\<close>

theorem subfolder_listing_evaluated:
  "get_files nested_store ''bkt'' ''in'' = []
   \<and> get_folders nested_store ''bkt'' ''in/'' = [''in/a/'', ''in/b/'']
   \<and> fastq_files (get_size nested_store ''bkt'' ''in/a/'') = [(''in/a/sA_L1_R1.fastq.gz'', 100)]
   \<and> fastq_files (get_size nested_store ''bkt'' ''in/b/'') = [(''in/b/sB_L1_R1.fastq.gz'', 200)]
   \<and> discover nested_store ''bkt'' ''in'' ''10x'' = Inr ([], [])
   \<and> discover_spec nested_store ''bkt'' ''in'' ''10x''
       = Inr ([(''sA'', [''in/a/sA_L1_R1.fastq.gz'']), (''sB'', [''in/b/sB_L1_R1.fastq.gz''])],
              [(''sA'', [100]), (''sB'', [200])])"
  by (simp add: nested_store_def discover_def discover_spec_def list_sample_files_def
      list_sample_files_spec_def fastq_files_def endswith_def search_matched_def basename_def
      search_sA_R1 search_sB_R1)

subsection \<open>The size gate\<close>

lemmas body_defs = loop_body_def invoke_def publish_def emit_def Let_def

lemmas example_defs = failing_upload_env_def example_env_def example_args_def example_ctx_def
  example_lists_def example_sizes_def example_state_def result_path_def path_div_def
  dict_get_def artifact_file_def artifact_name_def artifact_key_def path_join_def
  endswith_def loompy_command_def marker_env_def pathlib_str_def Let_def

lemma invoke_trace:
  "invoke env ctx fastqs st = (r, st') \<Longrightarrow>
   \<exists>evs. trace st' = trace st @ evs \<and> (\<forall>s. SkipLog s \<notin> set evs)"
  by (auto simp: body_defs split: option.splits sum.splits if_splits)

text \<open>
  Claim C6. For every sample and every threshold \<open>m\<close>, in a round that reaches the gate
  (the results directory could be created), the sample is skipped exactly when the sum of
  its file sizes is below \<open>m\<close>: the skip is logged, is not a failure, and nothing else
  happens in the round; with a sum of at least \<open>m\<close>, so also with a sum equal to \<open>m\<close>,
  the round goes on to the tool invocation.
\<close>

theorem size_gate_boundary:
  assumes "min_size a = Some m" and "result_path ctx \<notin> set (dirs st)"
  shows "(SkipLog sample \<in> set (new_events st (loop_body env a ctx sl ss sample st)))
           = (sum_list (dict_get ss sample) < m)
     \<and> (sum_list (dict_get ss sample) < m \<longrightarrow>
          loop_body env a ctx sl ss sample st = (None, emit [SkipLog sample] (at_gate ctx sample st)))
     \<and> (m \<le> sum_list (dict_get ss sample) \<longrightarrow>
          loop_body env a ctx sl ss sample st
            = invoke env ctx (dict_get sl sample) (at_gate ctx sample st))"
proof -
  have skip: "sum_list (dict_get ss sample) < m \<longrightarrow>
          loop_body env a ctx sl ss sample st = (None, emit [SkipLog sample] (at_gate ctx sample st))"
    using assms by (simp add: loop_body_def at_gate_def Let_def emit_def)
  have go: "m \<le> sum_list (dict_get ss sample) \<longrightarrow>
          loop_body env a ctx sl ss sample st
            = invoke env ctx (dict_get sl sample) (at_gate ctx sample st)"
    using assms by (simp add: loop_body_def at_gate_def Let_def emit_def)
  have "(SkipLog sample \<in> set (new_events st (loop_body env a ctx sl ss sample st)))
           = (sum_list (dict_get ss sample) < m)"
  proof (cases "sum_list (dict_get ss sample) < m")
    case True
    with skip show ?thesis by (simp add: new_events_def emit_def at_gate_def)
  next
    case False
    let ?g = "at_gate ctx sample st"
    have tg: "trace ?g = trace st @ [Mkdir (result_path ctx), Chdir (result_path ctx)]"
      by (simp add: at_gate_def emit_def)
    obtain evs where evs: "trace (snd (invoke env ctx (dict_get sl sample) ?g)) = trace ?g @ evs"
      and ns: "SkipLog sample \<notin> set evs"
      using invoke_trace [of env ctx "dict_get sl sample" ?g] by (metis prod.collapse)
    note ns
    moreover have "new_events st (loop_body env a ctx sl ss sample st)
        = [Mkdir (result_path ctx), Chdir (result_path ctx)] @ evs"
      using False go evs tg by (simp add: new_events_def)
    ultimately show ?thesis using False by simp
  qed
  with skip go show ?thesis by blast
qed

theorem size_gate_boundary_witness:
  "min_size example_args = Some 10 \<and> result_path example_ctx \<notin> set (dirs example_state)
   \<and> sum_list (dict_get example_sizes ''b'') = 10
   \<and> SkipLog ''b'' \<notin> set (new_events example_state
        (loop_body example_env example_args example_ctx example_lists example_sizes ''b'' example_state))
   \<and> sum_list (dict_get example_sizes ''a'') = 10 - 1
   \<and> SkipLog ''a'' \<in> set (new_events example_state
        (loop_body example_env example_args example_ctx example_lists example_sizes ''a'' example_state))"
proof -
  have h: "min_size example_args = Some 10" "result_path example_ctx \<notin> set (dirs example_state)"
    by (simp_all add: example_defs)
  have s: "sum_list (dict_get example_sizes ''b'') = 10" "sum_list (dict_get example_sizes ''a'') = 10 - 1"
    by (simp_all add: example_defs)
  show ?thesis
    using h s
      size_gate_boundary [OF h, THEN conjunct1, of "''b''" example_env example_lists example_sizes]
      size_gate_boundary [OF h, THEN conjunct1, of "''a''" example_env example_lists example_sizes]
    by simp
qed

text \<open>With the namespace the parser of the file builds, and with the names the file leaves
  unbound, a round ends at the first of them that it reads.\<close>

lemma loop_body_without_min_size:
  "min_size a = None \<Longrightarrow> result_path ctx \<notin> set (dirs st) \<Longrightarrow>
   loop_body env a ctx sl ss sample st = (Some (AttributeError ''min_size''), at_gate ctx sample st)"
  by (simp add: loop_body_def at_gate_def Let_def emit_def)

lemma invoke_without_log_command:
  "log_command env = None \<Longrightarrow> invoke env ctx fastqs st = (Some (NameError ''log_command''), st)"
  by (simp add: invoke_def)

subsection \<open>Tool invocation\<close>

lemma contains_sublist: "contains m s = sublist m s"
  by (induction s) (simp_all add: sublist_Cons_right)

text \<open>
  Claim C2, on the classification modelled from the spec. A tool run is classified as
  failed if and only if its exit code is non-zero or one of the failure markers occurs in
  the captured output; so an output with a marker is failed even with exit code 0. With
  that classification behind \<open>log_command\<close>, the loop raises \<open>RuntimeError\<close> on a failed
  run and goes on to the upload otherwise.
\<close>

theorem invocation_failure_classification:
  "classify_invocation_result markers exit_code output
     = (exit_code \<noteq> 0 \<or> (\<exists>m\<in>set markers. \<exists>pre suf. output = pre @ m @ suf))
   \<and> (m \<in> set markers \<longrightarrow> classify_invocation_result markers 0 (pre @ m @ suf))
   \<and> (log_command env = Some (spec_log_command markers tool)
        \<longrightarrow> tool (loompy_command ctx fastqs) = (exit_code, output)
        \<longrightarrow> invoke env ctx fastqs st
             = (if classify_invocation_result markers exit_code output
                then (Some (RuntimeError ''loompy failed''), emit [Invoke (loompy_command ctx fastqs)] st)
                else publish env ctx (emit [Invoke (loompy_command ctx fastqs)] st)))"
proof -
  have c: "\<And>out. has_failure_marker markers out = (\<exists>m\<in>set markers. \<exists>pre suf. out = pre @ m @ suf)"
    by (simp add: has_failure_marker_def list_ex_iff contains_sublist sublist_def)
  have 1: "classify_invocation_result markers exit_code output
     = (exit_code \<noteq> 0 \<or> (\<exists>m\<in>set markers. \<exists>pre suf. output = pre @ m @ suf))"
    by (simp add: classify_invocation_result_def c)
  have 2: "m \<in> set markers \<longrightarrow> classify_invocation_result markers 0 (pre @ m @ suf)"
    unfolding classify_invocation_result_def c by blast
  have 3: "log_command env = Some (spec_log_command markers tool)
        \<longrightarrow> tool (loompy_command ctx fastqs) = (exit_code, output)
        \<longrightarrow> invoke env ctx fastqs st
             = (if classify_invocation_result markers exit_code output
                then (Some (RuntimeError ''loompy failed''), emit [Invoke (loompy_command ctx fastqs)] st)
                else publish env ctx (emit [Invoke (loompy_command ctx fastqs)] st))"
    by (simp add: invoke_def spec_log_command_def Let_def)
  from 1 2 3 show ?thesis by blast
qed

theorem invocation_failure_classification_witness:
  "''Traceback'' \<in> set [''Traceback'']
   \<and> classify_invocation_result [''Traceback''] 0 ''Traceback (most recent call last)''
   \<and> invoke marker_env example_ctx [''fb''] example_state
      = (Some (RuntimeError ''loompy failed''),
         emit [Invoke (loompy_command example_ctx [''fb''])] example_state)"
proof -
  have h: "log_command marker_env
      = Some (spec_log_command [''Traceback''] (\<lambda>command. (0, ''Traceback (most recent call last)'')))"
    by (simp add: marker_env_def)
  have m: "''Traceback'' \<in> set [''Traceback'']" by simp
  note th = invocation_failure_classification
    [of "[''Traceback'']" 0 "''Traceback (most recent call last)''" "''Traceback''" "[]"
        "'' (most recent call last)''" marker_env "\<lambda>command. (0, ''Traceback (most recent call last)'')"
        example_ctx "[''fb'']" example_state]
  have c: "classify_invocation_result [''Traceback''] 0 ''Traceback (most recent call last)''"
    using th [THEN conjunct2, THEN conjunct1] m by simp
  have "invoke marker_env example_ctx [''fb''] example_state
      = (Some (RuntimeError ''loompy failed''),
         emit [Invoke (loompy_command example_ctx [''fb''])] example_state)"
    using th [THEN conjunct2, THEN conjunct2] h c by simp
  with m c show ?thesis by blast
qed


subsection \<open>Upload before cleanup\<close>

lemma publish_shape:
  assumes "publish env ctx st = (r, st')"
  shows "dirs st' = dirs st \<and>
           ((\<exists>e. r = Some e \<and> trace st' = trace st
               @ [UploadFailed (artifact_file ctx) (s3_output_bucket ctx) (artifact_key ctx) e])
            \<or> trace st' = trace st @ [Uploaded (artifact_file ctx) (s3_output_bucket ctx) (artifact_key ctx)])
       \<or> (\<exists>c. trace st' = trace st
               @ [Uploaded (artifact_file ctx) (s3_output_bucket ctx) (artifact_key ctx), Cleanup c, Sleep 30])"
proof (cases "upload_file env st (artifact_file ctx) (s3_output_bucket ctx) (artifact_key ctx)")
  case (Some e)
  with assms show ?thesis by (auto simp: publish_def emit_def)
next
  case None
  note up = this
  show ?thesis
  proof (cases "dest_dir env")
    case None
    with up assms show ?thesis by (auto simp: publish_def emit_def Let_def)
  next
    case (Some d)
    with up assms show ?thesis
      by (cases "ut_log_command env
            (emit [Uploaded (artifact_file ctx) (s3_output_bucket ctx) (artifact_key ctx)] st)
            [''rm'', ''-rf'', d]")
         (auto simp: publish_def emit_def Let_def)
  qed
qed

lemma invoke_shape:
  assumes "invoke env ctx fastqs st = (r, st')"
  shows "dirs st' = dirs st \<and>
           (trace st' = trace st
            \<or> (\<exists>c. trace st' = trace st @ [Invoke c])
            \<or> (\<exists>c e. r = Some e \<and> trace st' = trace st
                  @ [Invoke c, UploadFailed (artifact_file ctx) (s3_output_bucket ctx) (artifact_key ctx) e])
            \<or> (\<exists>c. trace st' = trace st
                  @ [Invoke c, Uploaded (artifact_file ctx) (s3_output_bucket ctx) (artifact_key ctx)]))
       \<or> (\<exists>c c'. trace st' = trace st
               @ [Invoke c, Uploaded (artifact_file ctx) (s3_output_bucket ctx) (artifact_key ctx),
                  Cleanup c', Sleep 30])"
proof (cases "log_command env")
  case None
  with assms show ?thesis by (simp add: invoke_def)
next
  case (Some run)
  let ?c = "loompy_command ctx fastqs"
  let ?st1 = "emit [Invoke ?c] st"
  have t1: "trace ?st1 = trace st @ [Invoke ?c]" "dirs ?st1 = dirs st" by (simp_all add: emit_def)
  show ?thesis
  proof (cases "run st ?c")
    case (Inl e)
    with Some assms have "st' = ?st1" by (simp add: invoke_def Let_def)
    with t1 show ?thesis by auto
  next
    case (Inr failed)
    show ?thesis
    proof (cases failed)
      case True
      with Inr Some assms have "st' = ?st1" by (simp add: invoke_def Let_def)
      with t1 show ?thesis by auto
    next
      case False
      with Inr Some assms have "publish env ctx ?st1 = (r, st')" by (simp add: invoke_def Let_def)
      from publish_shape [OF this] show ?thesis unfolding t1 by auto
    qed
  qed
qed


lemma loop_body_trace:
  assumes "loop_body env a ctx sl ss sample st = (r, st')"
  shows "\<exists>evs. trace st' = trace st @ evs
     \<and> (\<forall>c. Cleanup c \<in> set evs \<longrightarrow>
           (\<exists>pre post. evs = pre @ [Uploaded (artifact_file ctx) (s3_output_bucket ctx) (artifact_key ctx), Cleanup c] @ post))
     \<and> (\<forall>f b k e. UploadFailed f b k e \<in> set evs \<longrightarrow>
           r = Some e \<and> (\<exists>pre. evs = pre @ [UploadFailed f b k e]) \<and> result_path ctx \<in> set (dirs st'))
     \<and> ((\<exists>p\<in>set (dirs st). p \<notin> set (dirs st')) \<longrightarrow> (\<exists>c. Cleanup c \<in> set evs))"
proof -
  let ?rp = "result_path ctx"
  let ?U = "Uploaded (artifact_file ctx) (s3_output_bucket ctx) (artifact_key ctx)"
  let ?G = "\<lambda>evs. (\<forall>c. Cleanup c \<in> set evs \<longrightarrow> (\<exists>pre post. evs = pre @ [?U, Cleanup c] @ post))
     \<and> (\<forall>f b k e. UploadFailed f b k e \<in> set evs \<longrightarrow>
           r = Some e \<and> (\<exists>pre. evs = pre @ [UploadFailed f b k e]) \<and> ?rp \<in> set (dirs st'))
     \<and> ((\<exists>p\<in>set (dirs st). p \<notin> set (dirs st')) \<longrightarrow> (\<exists>c. Cleanup c \<in> set evs))"
  have plain: "?G evs"
    if "\<And>c. Cleanup c \<notin> set evs" "\<And>f b k e. UploadFailed f b k e \<notin> set evs"
      "set (dirs st) \<subseteq> set (dirs st')" for evs
    using that by blast
  show ?thesis
  proof (cases "?rp \<in> set (dirs st)")
    case True
    with assms have "st' = st\<lparr>started := started st @ [sample]\<rparr>" by (simp add: loop_body_def Let_def)
    then have t: "trace st' = trace st @ []" and g: "?G []" by simp_all
    show ?thesis by (rule exI [where x = "[]"], rule conjI, rule t, rule g)
  next
    case False
    let ?g = "at_gate ctx sample st"
    have tg: "trace ?g = trace st @ [Mkdir ?rp, Chdir ?rp]" and dg: "dirs ?g = ?rp # dirs st"
      by (simp_all add: at_gate_def emit_def)
    show ?thesis
    proof (cases "min_size a")
      case None
      with False assms have "st' = ?g" by (simp add: loop_body_def at_gate_def Let_def emit_def)
      with tg dg have t: "trace st' = trace st @ [Mkdir ?rp, Chdir ?rp]" and d: "dirs st' = ?rp # dirs st"
        by simp_all
      have g: "?G [Mkdir ?rp, Chdir ?rp]" by (rule plain) (use d in auto)
      show ?thesis by (rule exI [where x = "[Mkdir ?rp, Chdir ?rp]"], rule conjI, rule t, rule g)
    next
      case (Some m)
      show ?thesis
      proof (cases "sum_list (dict_get ss sample) < m")
        case True
        with Some False assms have "st' = emit [SkipLog sample] ?g"
          by (simp add: loop_body_def at_gate_def Let_def emit_def)
        with tg dg have t: "trace st' = trace st @ [Mkdir ?rp, Chdir ?rp, SkipLog sample]"
          and d: "dirs st' = ?rp # dirs st" by (simp_all add: emit_def)
        have g: "?G [Mkdir ?rp, Chdir ?rp, SkipLog sample]" by (rule plain) (use d in auto)
        show ?thesis
          by (rule exI [where x = "[Mkdir ?rp, Chdir ?rp, SkipLog sample]"], rule conjI, rule t, rule g)
      next
        case nskip: False
        with Some False assms have inv: "invoke env ctx (dict_get sl sample) ?g = (r, st')"
          by (simp add: loop_body_def at_gate_def Let_def emit_def)
        from invoke_shape [OF inv] consider
            (none) "dirs st' = dirs ?g" "trace st' = trace ?g"
          | (run) c where "dirs st' = dirs ?g" "trace st' = trace ?g @ [Invoke c]"
          | (failed) c e where "dirs st' = dirs ?g" "r = Some e"
              "trace st' = trace ?g @ [Invoke c, UploadFailed (artifact_file ctx) (s3_output_bucket ctx) (artifact_key ctx) e]"
          | (up) c where "dirs st' = dirs ?g" "trace st' = trace ?g @ [Invoke c, ?U]"
          | (clean) c c' where "trace st' = trace ?g @ [Invoke c, ?U, Cleanup c', Sleep 30]"
          by blast
        then show ?thesis
        proof cases
          case none
          then have t: "trace st' = trace st @ [Mkdir ?rp, Chdir ?rp]" and d: "dirs st' = ?rp # dirs st"
            using tg dg by simp_all
          have g: "?G [Mkdir ?rp, Chdir ?rp]" by (rule plain) (use d in auto)
          show ?thesis by (rule exI [where x = "[Mkdir ?rp, Chdir ?rp]"], rule conjI, rule t, rule g)
        next
          case run
          then have t: "trace st' = trace st @ [Mkdir ?rp, Chdir ?rp, Invoke c]"
            and d: "dirs st' = ?rp # dirs st" using tg dg by simp_all
          have g: "?G [Mkdir ?rp, Chdir ?rp, Invoke c]" by (rule plain) (use d in auto)
          show ?thesis
            by (rule exI [where x = "[Mkdir ?rp, Chdir ?rp, Invoke c]"], rule conjI, rule t, rule g)
        next
          case failed
          let ?F = "UploadFailed (artifact_file ctx) (s3_output_bucket ctx) (artifact_key ctx) e"
          from failed have t: "trace st' = trace st @ [Mkdir ?rp, Chdir ?rp, Invoke c, ?F]"
            and d: "dirs st' = ?rp # dirs st" using tg dg by simp_all
          have app: "[Mkdir ?rp, Chdir ?rp, Invoke c, ?F] = [Mkdir ?rp, Chdir ?rp, Invoke c] @ [?F]"
            by simp
          have g: "?G [Mkdir ?rp, Chdir ?rp, Invoke c, ?F]"
          proof (intro conjI allI impI)
            fix c0 assume "Cleanup c0 \<in> set [Mkdir ?rp, Chdir ?rp, Invoke c, ?F]"
            then show "\<exists>pre post. [Mkdir ?rp, Chdir ?rp, Invoke c, ?F] = pre @ [?U, Cleanup c0] @ post"
              by simp
          next
            fix f b k e0 assume "UploadFailed f b k e0 \<in> set [Mkdir ?rp, Chdir ?rp, Invoke c, ?F]"
            then have eq: "UploadFailed f b k e0 = ?F" by simp
            then show "r = Some e0" using failed(2) by simp
            show "\<exists>pre. [Mkdir ?rp, Chdir ?rp, Invoke c, ?F] = pre @ [UploadFailed f b k e0]"
              unfolding eq using app by blast
            show "?rp \<in> set (dirs st')" using d by simp
          next
            assume "\<exists>p\<in>set (dirs st). p \<notin> set (dirs st')"
            then show "\<exists>c0. Cleanup c0 \<in> set [Mkdir ?rp, Chdir ?rp, Invoke c, ?F]"
              using d by auto
          qed
          show ?thesis
            by (rule exI [where x = "[Mkdir ?rp, Chdir ?rp, Invoke c, ?F]"], rule conjI, rule t, rule g)
        next
          case up
          then have t: "trace st' = trace st @ [Mkdir ?rp, Chdir ?rp, Invoke c, ?U]"
            and d: "dirs st' = ?rp # dirs st" using tg dg by simp_all
          have g: "?G [Mkdir ?rp, Chdir ?rp, Invoke c, ?U]" by (rule plain) (use d in auto)
          show ?thesis
            by (rule exI [where x = "[Mkdir ?rp, Chdir ?rp, Invoke c, ?U]"], rule conjI, rule t, rule g)
        next
          case clean
          then have t: "trace st' = trace st @ [Mkdir ?rp, Chdir ?rp, Invoke c, ?U, Cleanup c', Sleep 30]"
            using tg by simp
          have app: "[Mkdir ?rp, Chdir ?rp, Invoke c, ?U, Cleanup c', Sleep 30]
              = [Mkdir ?rp, Chdir ?rp, Invoke c] @ [?U, Cleanup c'] @ [Sleep 30]" by simp
          have g: "?G [Mkdir ?rp, Chdir ?rp, Invoke c, ?U, Cleanup c', Sleep 30]"
          proof (intro conjI allI impI)
            fix c0 assume "Cleanup c0 \<in> set [Mkdir ?rp, Chdir ?rp, Invoke c, ?U, Cleanup c', Sleep 30]"
            then have "c0 = c'" by simp
            then show "\<exists>pre post. [Mkdir ?rp, Chdir ?rp, Invoke c, ?U, Cleanup c', Sleep 30]
                = pre @ [?U, Cleanup c0] @ post"
              using app by blast
          next
            fix f b k e0
            assume "UploadFailed f b k e0 \<in> set [Mkdir ?rp, Chdir ?rp, Invoke c, ?U, Cleanup c', Sleep 30]"
            then have False by simp
            then show "r = Some e0"
              "\<exists>pre. [Mkdir ?rp, Chdir ?rp, Invoke c, ?U, Cleanup c', Sleep 30] = pre @ [UploadFailed f b k e0]"
              "?rp \<in> set (dirs st')" by simp_all
          next
            show "\<exists>c0. Cleanup c0 \<in> set [Mkdir ?rp, Chdir ?rp, Invoke c, ?U, Cleanup c', Sleep 30]"
              by auto
          qed
          show ?thesis
            by (rule exI [where x = "[Mkdir ?rp, Chdir ?rp, Invoke c, ?U, Cleanup c', Sleep 30]"],
                rule conjI, rule t, rule g)
        qed
      qed
    qed
  qed
qed

lemma run_loop_trace:
  "run_loop env a ctx sl ss samples st = (r, st') \<Longrightarrow>
   \<exists>evs. trace st' = trace st @ evs
     \<and> (\<forall>c. Cleanup c \<in> set evs \<longrightarrow>
           (\<exists>pre post. evs = pre @ [Uploaded (artifact_file ctx) (s3_output_bucket ctx) (artifact_key ctx), Cleanup c] @ post))
     \<and> (\<forall>f b k e. UploadFailed f b k e \<in> set evs \<longrightarrow>
           r = Some e \<and> (\<exists>pre. evs = pre @ [UploadFailed f b k e]) \<and> result_path ctx \<in> set (dirs st'))
     \<and> ((\<exists>p\<in>set (dirs st). p \<notin> set (dirs st')) \<longrightarrow> (\<exists>c. Cleanup c \<in> set evs))"
proof (induction samples arbitrary: st)
  case Nil
  then show ?case by simp
next
  case (Cons sample rest)
  obtain r1 st1 where b: "loop_body env a ctx sl ss sample st = (r1, st1)" by fastforce
  from loop_body_trace [OF b] obtain ev1 where ev1: "trace st1 = trace st @ ev1"
    and c1: "\<forall>c. Cleanup c \<in> set ev1 \<longrightarrow>
           (\<exists>pre post. ev1 = pre @ [Uploaded (artifact_file ctx) (s3_output_bucket ctx) (artifact_key ctx), Cleanup c] @ post)"
    and u1: "\<forall>f b k e. UploadFailed f b k e \<in> set ev1 \<longrightarrow>
           r1 = Some e \<and> (\<exists>pre. ev1 = pre @ [UploadFailed f b k e]) \<and> result_path ctx \<in> set (dirs st1)"
    and d1: "(\<exists>p\<in>set (dirs st). p \<notin> set (dirs st1)) \<longrightarrow> (\<exists>c. Cleanup c \<in> set ev1)"
    by blast
  show ?case
  proof (cases r1)
    case (Some e)
    with b Cons.prems have "r = r1" "st' = st1" by simp_all
    with ev1 c1 u1 d1 show ?thesis by blast
  next
    case None
    with b Cons.prems have rest: "run_loop env a ctx sl ss rest st1 = (r, st')" by simp
    from Cons.IH [OF rest] obtain ev2 where ev2: "trace st' = trace st1 @ ev2"
      and c2: "\<forall>c. Cleanup c \<in> set ev2 \<longrightarrow>
           (\<exists>pre post. ev2 = pre @ [Uploaded (artifact_file ctx) (s3_output_bucket ctx) (artifact_key ctx), Cleanup c] @ post)"
      and u2: "\<forall>f b k e. UploadFailed f b k e \<in> set ev2 \<longrightarrow>
           r = Some e \<and> (\<exists>pre. ev2 = pre @ [UploadFailed f b k e]) \<and> result_path ctx \<in> set (dirs st')"
      and d2: "(\<exists>p\<in>set (dirs st1). p \<notin> set (dirs st')) \<longrightarrow> (\<exists>c. Cleanup c \<in> set ev2)"
      by blast
    have nu: "\<And>f b k e. UploadFailed f b k e \<notin> set ev1" using u1 None by auto
    have t: "trace st' = trace st @ (ev1 @ ev2)" using ev1 ev2 by simp
    have c: "\<forall>c. Cleanup c \<in> set (ev1 @ ev2) \<longrightarrow>
           (\<exists>pre post. ev1 @ ev2 = pre @ [Uploaded (artifact_file ctx) (s3_output_bucket ctx) (artifact_key ctx), Cleanup c] @ post)"
    proof (intro allI impI)
      fix c assume "Cleanup c \<in> set (ev1 @ ev2)"
      then consider "Cleanup c \<in> set ev1" | "Cleanup c \<in> set ev2" by auto
      then show "\<exists>pre post. ev1 @ ev2 = pre @ [Uploaded (artifact_file ctx) (s3_output_bucket ctx) (artifact_key ctx), Cleanup c] @ post"
      proof cases
        case 1
        with c1 obtain pre post where "ev1 = pre @ [Uploaded (artifact_file ctx) (s3_output_bucket ctx) (artifact_key ctx), Cleanup c] @ post" by blast
        then have "ev1 @ ev2 = pre @ [Uploaded (artifact_file ctx) (s3_output_bucket ctx) (artifact_key ctx), Cleanup c] @ (post @ ev2)" by simp
        then show ?thesis by blast
      next
        case 2
        with c2 obtain pre post where "ev2 = pre @ [Uploaded (artifact_file ctx) (s3_output_bucket ctx) (artifact_key ctx), Cleanup c] @ post" by blast
        then have "ev1 @ ev2 = (ev1 @ pre) @ [Uploaded (artifact_file ctx) (s3_output_bucket ctx) (artifact_key ctx), Cleanup c] @ post" by simp
        then show ?thesis by blast
      qed
    qed
    have u: "\<forall>f b k e. UploadFailed f b k e \<in> set (ev1 @ ev2) \<longrightarrow>
           r = Some e \<and> (\<exists>pre. ev1 @ ev2 = pre @ [UploadFailed f b k e]) \<and> result_path ctx \<in> set (dirs st')"
    proof (intro allI impI)
      fix f b k e assume "UploadFailed f b k e \<in> set (ev1 @ ev2)"
      with nu have "UploadFailed f b k e \<in> set ev2" by auto
      with u2 obtain pre where "r = Some e" "ev2 = pre @ [UploadFailed f b k e]" "result_path ctx \<in> set (dirs st')"
        by blast
      then have "r = Some e" "ev1 @ ev2 = (ev1 @ pre) @ [UploadFailed f b k e]" "result_path ctx \<in> set (dirs st')"
        by simp_all
      then show "r = Some e \<and> (\<exists>pre. ev1 @ ev2 = pre @ [UploadFailed f b k e]) \<and> result_path ctx \<in> set (dirs st')"
        by blast
    qed
    have d: "(\<exists>p\<in>set (dirs st). p \<notin> set (dirs st')) \<longrightarrow> (\<exists>c. Cleanup c \<in> set (ev1 @ ev2))"
      using d1 d2 by auto
    from t c u d show ?thesis by blast
  qed
qed

text \<open>
  Claim C3. In every run of the loop, a cleanup command is run only directly after the
  upload of the artifact has returned without raising, and no directory disappears without
  a cleanup command. When an upload raises, the run ends there with that exception: the
  failed upload is the last thing that happened, and the results directory with the
  artifact still exists.
\<close>

theorem cleanup_only_after_upload:
  assumes "run_loop env a ctx sl ss samples st = (r, st')"
  shows "(\<forall>c. Cleanup c \<in> set (new_events st (r, st')) \<longrightarrow>
            (\<exists>pre post. new_events st (r, st')
               = pre @ [Uploaded (artifact_file ctx) (s3_output_bucket ctx) (artifact_key ctx), Cleanup c] @ post))
     \<and> ((\<exists>p\<in>set (dirs st). p \<notin> set (dirs st')) \<longrightarrow> (\<exists>c. Cleanup c \<in> set (new_events st (r, st'))))
     \<and> (\<forall>f b k e. UploadFailed f b k e \<in> set (new_events st (r, st')) \<longrightarrow>
            r = Some e \<and> (\<exists>pre. new_events st (r, st') = pre @ [UploadFailed f b k e])
            \<and> result_path ctx \<in> set (dirs st'))"
proof -
  from run_loop_trace [OF assms] obtain evs where evs: "trace st' = trace st @ evs"
    and rest: "(\<forall>c. Cleanup c \<in> set evs \<longrightarrow>
           (\<exists>pre post. evs = pre @ [Uploaded (artifact_file ctx) (s3_output_bucket ctx) (artifact_key ctx), Cleanup c] @ post))
     \<and> (\<forall>f b k e. UploadFailed f b k e \<in> set evs \<longrightarrow>
           r = Some e \<and> (\<exists>pre. evs = pre @ [UploadFailed f b k e]) \<and> result_path ctx \<in> set (dirs st'))
     \<and> ((\<exists>p\<in>set (dirs st). p \<notin> set (dirs st')) \<longrightarrow> (\<exists>c. Cleanup c \<in> set evs))"
    by blast
  have ne: "new_events st (r, st') = evs" using evs by (simp add: new_events_def)
  show ?thesis unfolding ne using rest by blast
qed

lemma failing_upload_run:
  "run_loop failing_upload_env example_args example_ctx example_lists example_sizes [''b''] example_state
   = (Some (ExternalError ''S3UploadFailedError''),
      \<lparr>dirs = [''/mnt/data/results'', ''/mnt/data''],
       trace = [Mkdir ''/mnt/data/results'', Chdir ''/mnt/data/results'',
         Invoke [''loompy'', ''fromfq'', ''meta.loom'', ''meta'', ''/mnt/genome/10X/human'',
           ''/mnt/data/metadata/meta.tsv'', ''fb''],
         UploadFailed ''/mnt/data/results/meta.loom'' ''bkt'' ''out/meta.loom''
           (ExternalError ''S3UploadFailedError'')],
       started = [''b'']\<rparr>)"
  by (simp add: body_defs example_defs)

lemma successful_run:
  "run_loop example_env example_args example_ctx example_lists example_sizes [''b''] example_state
   = (None,
      \<lparr>dirs = [''/mnt/data/results'', ''/mnt/data''],
       trace = [Mkdir ''/mnt/data/results'', Chdir ''/mnt/data/results'',
         Invoke [''loompy'', ''fromfq'', ''meta.loom'', ''meta'', ''/mnt/genome/10X/human'',
           ''/mnt/data/metadata/meta.tsv'', ''fb''],
         Uploaded ''/mnt/data/results/meta.loom'' ''bkt'' ''out/meta.loom'',
         Cleanup [''rm'', ''-rf'', ''/mnt/data/meta''], Sleep 30],
       started = [''b'']\<rparr>)"
  by (simp add: body_defs example_defs rm_rf_def)

theorem cleanup_only_after_upload_witness:
  "(\<exists>st'. run_loop failing_upload_env example_args example_ctx example_lists example_sizes [''b'']
            example_state = (Some (ExternalError ''S3UploadFailedError''), st')
        \<and> UploadFailed ''/mnt/data/results/meta.loom'' ''bkt'' ''out/meta.loom''
             (ExternalError ''S3UploadFailedError'')
            \<in> set (new_events example_state (Some (ExternalError ''S3UploadFailedError''), st'))
        \<and> result_path example_ctx \<in> set (dirs st')
        \<and> (\<forall>c. Cleanup c \<notin> set (new_events example_state (Some (ExternalError ''S3UploadFailedError''), st'))))
   \<and> (\<exists>st' pre post. run_loop example_env example_args example_ctx example_lists example_sizes [''b'']
            example_state = (None, st')
        \<and> Cleanup [''rm'', ''-rf'', ''/mnt/data/meta''] \<in> set (new_events example_state (None, st'))
        \<and> new_events example_state (None, st')
            = pre @ [Uploaded (artifact_file example_ctx) (s3_output_bucket example_ctx)
                       (artifact_key example_ctx),
                     Cleanup [''rm'', ''-rf'', ''/mnt/data/meta'']] @ post)"
proof (intro conjI)
  let ?e = "ExternalError ''S3UploadFailedError''"
  let ?st = "\<lparr>dirs = [''/mnt/data/results'', ''/mnt/data''],
       trace = [Mkdir ''/mnt/data/results'', Chdir ''/mnt/data/results'',
         Invoke [''loompy'', ''fromfq'', ''meta.loom'', ''meta'', ''/mnt/genome/10X/human'',
           ''/mnt/data/metadata/meta.tsv'', ''fb''],
         UploadFailed ''/mnt/data/results/meta.loom'' ''bkt'' ''out/meta.loom'' ?e],
       started = [''b'']\<rparr>"
  have u: "UploadFailed ''/mnt/data/results/meta.loom'' ''bkt'' ''out/meta.loom'' ?e
      \<in> set (new_events example_state (Some ?e, ?st))"
    by (simp add: new_events_def example_state_def)
  have c: "\<forall>c. Cleanup c \<notin> set (new_events example_state (Some ?e, ?st))"
    by (simp add: new_events_def example_state_def)
  from cleanup_only_after_upload [OF failing_upload_run, THEN conjunct2, THEN conjunct2] u
  have "result_path example_ctx \<in> set (dirs ?st)" by blast
  with failing_upload_run u c
  show "\<exists>st'. run_loop failing_upload_env example_args example_ctx example_lists example_sizes [''b'']
            example_state = (Some ?e, st')
        \<and> UploadFailed ''/mnt/data/results/meta.loom'' ''bkt'' ''out/meta.loom'' ?e
            \<in> set (new_events example_state (Some ?e, st'))
        \<and> result_path example_ctx \<in> set (dirs st')
        \<and> (\<forall>c. Cleanup c \<notin> set (new_events example_state (Some ?e, st')))"
    by blast
next
  let ?st = "\<lparr>dirs = [''/mnt/data/results'', ''/mnt/data''],
       trace = [Mkdir ''/mnt/data/results'', Chdir ''/mnt/data/results'',
         Invoke [''loompy'', ''fromfq'', ''meta.loom'', ''meta'', ''/mnt/genome/10X/human'',
           ''/mnt/data/metadata/meta.tsv'', ''fb''],
         Uploaded ''/mnt/data/results/meta.loom'' ''bkt'' ''out/meta.loom'',
         Cleanup [''rm'', ''-rf'', ''/mnt/data/meta''], Sleep 30],
       started = [''b'']\<rparr>"
  have c: "Cleanup [''rm'', ''-rf'', ''/mnt/data/meta''] \<in> set (new_events example_state (None, ?st))"
    by (simp add: new_events_def example_state_def)
  from cleanup_only_after_upload [OF successful_run, THEN conjunct1] c
  obtain pre post where "new_events example_state (None, ?st)
            = pre @ [Uploaded (artifact_file example_ctx) (s3_output_bucket example_ctx)
                       (artifact_key example_ctx),
                     Cleanup [''rm'', ''-rf'', ''/mnt/data/meta'']] @ post"
    by blast
  with successful_run c
  show "\<exists>st' pre post. run_loop example_env example_args example_ctx example_lists example_sizes [''b'']
            example_state = (None, st')
        \<and> Cleanup [''rm'', ''-rf'', ''/mnt/data/meta''] \<in> set (new_events example_state (None, st'))
        \<and> new_events example_state (None, st')
            = pre @ [Uploaded (artifact_file example_ctx) (s3_output_bucket example_ctx)
                       (artifact_key example_ctx),
                     Cleanup [''rm'', ''-rf'', ''/mnt/data/meta'']] @ post"
    by blast
qed

subsection \<open>The uploaded artifact\<close>

text \<open>
  Claim C4, amended. For every sample that passes the gate, whose tool run is not failed
  and whose upload does not raise, the round uploads exactly one artifact. Its local file is
  the text of the \<open>pathlib\<close> path \<open>run_dir / "results" / "{sample_name}.loom"\<close> and its key
  is \<open>os.path.join\<close> of the output prefix and \<open>{sample_name}.loom\<close>, where \<open>sample_name\<close>
  is the name read from the first data row of the metadata file: the name does not depend on
  the discovered sample, whose files are only the trailing arguments of the tool command.
\<close>

theorem artifact_named_after_metadata:
  assumes "min_size a = Some m" and "m \<le> sum_list (dict_get ss sample)"
    and "result_path ctx \<notin> set (dirs st)"
    and "log_command env = Some run"
    and "run (at_gate ctx sample st) (loompy_command ctx (dict_get sl sample)) = Inr False"
    and "upload_file env
           (emit [Invoke (loompy_command ctx (dict_get sl sample))] (at_gate ctx sample st))
           (artifact_file ctx) (s3_output_bucket ctx) (artifact_key ctx) = None"
  shows "filter is_uploaded (new_events st (loop_body env a ctx sl ss sample st))
      = [Uploaded (path_div (path_div (run_dir ctx) ''results'') (sample_name ctx @ ''.loom''))
           (s3_output_bucket ctx) (path_join (s3_output_prefix ctx) (sample_name ctx @ ''.loom''))]
    \<and> Invoke ([''loompy'', ''fromfq'', sample_name ctx @ ''.loom'', sample_name ctx,
                 genome_dir ctx, metadata_dir ctx] @ dict_get sl sample)
        \<in> set (new_events st (loop_body env a ctx sl ss sample st))"
proof -
  let ?g = "at_gate ctx sample st"
  let ?c = "loompy_command ctx (dict_get sl sample)"
  let ?st1 = "emit [Invoke ?c] ?g"
  let ?U = "Uploaded (artifact_file ctx) (s3_output_bucket ctx) (artifact_key ctx)"
  have body: "loop_body env a ctx sl ss sample st = publish env ctx ?st1"
    using assms by (simp add: loop_body_def invoke_def at_gate_def emit_def Let_def)
  have t1: "trace ?st1 = trace st @ [Mkdir (result_path ctx), Chdir (result_path ctx), Invoke ?c]"
    by (simp add: at_gate_def emit_def)
  obtain r st' where p: "publish env ctx ?st1 = (r, st')" by fastforce
  have "trace st' = trace ?st1 @ [?U] \<or> (\<exists>c. trace st' = trace ?st1 @ [?U, Cleanup c, Sleep 30])"
  proof (cases "dest_dir env")
    case None
    with p assms(6) show ?thesis by (auto simp: publish_def Let_def emit_def)
  next
    case (Some d)
    with p assms(6) show ?thesis
      by (cases "ut_log_command env (emit [?U] ?st1) [''rm'', ''-rf'', d]")
         (auto simp: publish_def Let_def emit_def)
  qed
  then have ev: "new_events st (loop_body env a ctx sl ss sample st)
        = [Mkdir (result_path ctx), Chdir (result_path ctx), Invoke ?c, ?U]
      \<or> (\<exists>c. new_events st (loop_body env a ctx sl ss sample st)
        = [Mkdir (result_path ctx), Chdir (result_path ctx), Invoke ?c, ?U, Cleanup c, Sleep 30])"
    unfolding body p new_events_def t1 by auto
  have names: "?U = Uploaded (path_div (path_div (run_dir ctx) ''results'') (sample_name ctx @ ''.loom''))
      (s3_output_bucket ctx) (path_join (s3_output_prefix ctx) (sample_name ctx @ ''.loom''))"
    "?c = [''loompy'', ''fromfq'', sample_name ctx @ ''.loom'', sample_name ctx,
             genome_dir ctx, metadata_dir ctx] @ dict_get sl sample"
    by (simp_all add: artifact_file_def artifact_name_def artifact_key_def result_path_def
        loompy_command_def)
  from ev show ?thesis unfolding names [symmetric]
    by (auto simp: is_uploaded_def)
qed

theorem artifact_named_after_metadata_witness:
  "filter is_uploaded (new_events example_state
      (loop_body example_env example_args example_ctx example_lists example_sizes ''b'' example_state))
     = [Uploaded ''/mnt/data/results/meta.loom'' ''bkt'' ''out/meta.loom'']
   \<and> Invoke [''loompy'', ''fromfq'', ''meta.loom'', ''meta'', ''/mnt/genome/10X/human'',
        ''/mnt/data/metadata/meta.tsv'', ''fb'']
      \<in> set (new_events example_state
          (loop_body example_env example_args example_ctx example_lists example_sizes ''b'' example_state))"
proof -
  have h: "min_size example_args = Some 10" "10 \<le> sum_list (dict_get example_sizes ''b'')"
    "result_path example_ctx \<notin> set (dirs example_state)"
    "log_command example_env = Some (\<lambda>st command. Inr False)"
    "(\<lambda>st command. Inr False :: error + bool) (at_gate example_ctx ''b'' example_state)
       (loompy_command example_ctx (dict_get example_lists ''b'')) = Inr False"
    "upload_file example_env
       (emit [Invoke (loompy_command example_ctx (dict_get example_lists ''b''))]
          (at_gate example_ctx ''b'' example_state))
       (artifact_file example_ctx) (s3_output_bucket example_ctx) (artifact_key example_ctx) = None"
    by (simp_all add: example_env_def example_args_def example_sizes_def example_state_def
        example_ctx_def dict_get_def result_path_def path_div_def path_join_def endswith_def
        pathlib_str_def Let_def)
  from artifact_named_after_metadata [OF h]
  show ?thesis by (simp add: example_defs)
qed

text \<open>The local file is in the form \<open>pathlib\<close> gives it: for the metadata sample name
  \<open>./x\<close> it is \<open>results/x.loom\<close> under the run directory, while the key keeps the name as
  it is.\<close>

lemma artifact_file_normalised:
  "artifact_file (example_ctx\<lparr>sample_name := ''./x''\<rparr>) = ''/mnt/data/results/x.loom''
   \<and> artifact_key (example_ctx\<lparr>sample_name := ''./x''\<rparr>) = ''out/./x.loom''"
  by (simp add: example_defs)

text \<open>The claim as stated fails: the samples \<open>b\<close> and \<open>c\<close>, each processed with every
  external call succeeding, both upload \<open>meta.loom\<close> under the same key, and \<open>meta.loom\<close>
  is not \<open>b.loom\<close>.\<close>

theorem artifact_name_counterexample:
  "filter is_uploaded (new_events example_state
      (loop_body example_env example_args example_ctx example_lists example_sizes ''b'' example_state))
     = [Uploaded ''/mnt/data/results/meta.loom'' ''bkt'' ''out/meta.loom'']
   \<and> filter is_uploaded (new_events example_state
      (loop_body example_env example_args example_ctx example_lists example_sizes ''c'' example_state))
     = [Uploaded ''/mnt/data/results/meta.loom'' ''bkt'' ''out/meta.loom'']
   \<and> ''meta.loom'' \<noteq> ''b.loom'' \<and> ''b'' \<noteq> ''c''"
  by (simp add: body_defs example_defs new_events_def is_uploaded_def rm_rf_def)

subsection \<open>The results directory\<close>

lemma loop_body_keeps_results:
  assumes "loop_body env a ctx sl ss sample st = (None, st')"
    and "dest_dir env = None \<or> (\<exists>d. dest_dir env = Some d \<and> result_path ctx \<noteq> d \<and> \<not> prefix (d @ ''/'') (result_path ctx))"
  shows "result_path ctx \<in> set (dirs st')"
  using assms
  by (auto simp: body_defs rm_rf_def split: option.splits sum.splits if_splits)

lemma loop_body_exists:
  "result_path ctx \<in> set (dirs st) \<Longrightarrow>
   loop_body env a ctx sl ss sample st
     = (Some (FileExistsError (result_path ctx)), st\<lparr>started := started st @ [sample]\<rparr>)"
  by (simp add: loop_body_def Let_def)

text \<open>
  Claim C9, amended. The results directory is the same path in every round and is created,
  before the size gate, without tolerating an existing directory. Provided the cleanup
  command does not remove it (the name \<open>dest_dir\<close> is unbound, as in the file, or bound to
  a directory that is neither the results directory nor above it), a run with two or more
  assigned samples goes as follows: if the first round raises, the run ends with that
  exception; otherwise, whether the first sample was skipped or processed, the second round
  raises \<open>FileExistsError\<close> at the creation of the directory, before the gate and the tool
  invocation, and no further sample is reached.
\<close>

theorem second_round_fails_at_mkdir:
  assumes "dest_dir env = None \<or>
     (\<exists>d. dest_dir env = Some d \<and> result_path ctx \<noteq> d \<and> \<not> prefix (d @ ''/'') (result_path ctx))"
  shows "run_loop env a ctx sl ss (s1 # s2 # rest) st =
     (case loop_body env a ctx sl ss s1 st of
        (Some e, st1) \<Rightarrow> (Some e, st1)
      | (None, st1) \<Rightarrow>
          (Some (FileExistsError (result_path ctx)), st1\<lparr>started := started st1 @ [s2]\<rparr>))"
proof -
  obtain r1 st1 where b: "loop_body env a ctx sl ss s1 st = (r1, st1)" by fastforce
  show ?thesis
  proof (cases r1)
    case (Some e)
    with b show ?thesis by simp
  next
    case None
    with b assms have "result_path ctx \<in> set (dirs st1)" using loop_body_keeps_results by blast
    then have "loop_body env a ctx sl ss s2 st1
       = (Some (FileExistsError (result_path ctx)), st1\<lparr>started := started st1 @ [s2]\<rparr>)"
      by (rule loop_body_exists)
    with b None show ?thesis by simp
  qed
qed

theorem second_round_fails_at_mkdir_witness:
  "run_loop (example_env\<lparr>dest_dir := None\<rparr>) example_args example_ctx example_lists example_sizes
      [''a'', ''b'', ''c''] example_state
     = (Some (FileExistsError ''/mnt/data/results''),
        \<lparr>dirs = [''/mnt/data/results'', ''/mnt/data''],
         trace = [Mkdir ''/mnt/data/results'', Chdir ''/mnt/data/results'', SkipLog ''a''],
         started = [''a'', ''b'']\<rparr>)
   \<and> run_loop example_env example_args example_ctx example_lists example_sizes
      [''b'', ''c''] example_state
     = (Some (FileExistsError ''/mnt/data/results''),
        \<lparr>dirs = [''/mnt/data/results'', ''/mnt/data''],
         trace = [Mkdir ''/mnt/data/results'', Chdir ''/mnt/data/results'',
           Invoke [''loompy'', ''fromfq'', ''meta.loom'', ''meta'', ''/mnt/genome/10X/human'',
             ''/mnt/data/metadata/meta.tsv'', ''fb''],
           Uploaded ''/mnt/data/results/meta.loom'' ''bkt'' ''out/meta.loom'',
           Cleanup [''rm'', ''-rf'', ''/mnt/data/meta''], Sleep 30],
         started = [''b'', ''c'']\<rparr>)"
proof -
  have h1: "dest_dir (example_env\<lparr>dest_dir := None\<rparr>) = None \<or>
     (\<exists>d. dest_dir (example_env\<lparr>dest_dir := None\<rparr>) = Some d \<and> result_path example_ctx \<noteq> d
        \<and> \<not> prefix (d @ ''/'') (result_path example_ctx))" by simp
  have h2: "dest_dir example_env = None \<or>
     (\<exists>d. dest_dir example_env = Some d \<and> result_path example_ctx \<noteq> d
        \<and> \<not> prefix (d @ ''/'') (result_path example_ctx))"
    by (simp add: example_defs)
  show ?thesis
    using second_round_fails_at_mkdir [OF h1, of example_args example_lists example_sizes
        "''a''" "''b''" "[''c'']" example_state]
      second_round_fails_at_mkdir [OF h2, of example_args example_lists example_sizes
        "''b''" "''c''" "[]" example_state]
    by (simp add: body_defs example_defs rm_rf_def)
qed

text \<open>The claim as stated fails: of the assigned samples \<open>a\<close>, \<open>b\<close>, \<open>c\<close> the two that pass
  the gate are \<open>b\<close> and \<open>c\<close>; the run raises at the creation of the directory in the round
  of \<open>b\<close>, the first of them, and the round of \<open>c\<close> never starts.\<close>

theorem second_passing_sample_counterexample:
  "filter (\<lambda>s. \<not> sum_list (dict_get example_sizes s) < 10) [''a'', ''b'', ''c''] = [''b'', ''c'']
   \<and> run_loop example_env example_args example_ctx example_lists example_sizes
        [''a'', ''b'', ''c''] example_state
     = (Some (FileExistsError ''/mnt/data/results''),
        \<lparr>dirs = [''/mnt/data/results'', ''/mnt/data''],
         trace = [Mkdir ''/mnt/data/results'', Chdir ''/mnt/data/results'', SkipLog ''a''],
         started = [''a'', ''b'']\<rparr>)"
  by (simp add: body_defs example_defs)

end
